theory Spec2Isabelle
  imports Main "HOL-Library.Word"
begin

section \<open>JavaScript strings\<close>

text \<open>
  A JavaScript string is a sequence of UTF-16 code units. The parser of
  \<^verbatim>\<open>src/agent.ts\<close> only compares code units for equality and, in
  \<^verbatim>\<open>trim\<close>, tests them for membership in the ECMAScript white-space set, so a
  string is modelled as a list of 16-bit words. Literals are written as HOL strings and
  converted with \<open>js\<close>.
\<close>

type_synonym jschar = "16 word"

type_synonym jsstring = "jschar list"

definition js :: "string \<Rightarrow> jsstring" where
  "js s = map (\<lambda>c. of_nat (of_char c)) s"

definition NL :: jschar where
  "NL = 0x0A"

text \<open>
  \<^verbatim>\<open>String.prototype.trim\<close> strips WhiteSpace and LineTerminator code points:
  TAB, LF, VT, FF, CR, SP, NBSP, U+1680, U+2000..U+200A, U+2028, U+2029, U+202F,
  U+205F, U+3000 and U+FEFF.
\<close>

definition is_ws :: "jschar \<Rightarrow> bool" where
  "is_ws c \<longleftrightarrow> c \<in> set [0x09, 0x0A, 0x0B, 0x0C, 0x0D, 0x20, 0xA0, 0x1680,
     0x2000, 0x2001, 0x2002, 0x2003, 0x2004, 0x2005, 0x2006, 0x2007, 0x2008, 0x2009, 0x200A,
     0x2028, 0x2029, 0x202F, 0x205F, 0x3000, 0xFEFF]"

definition trim :: "jsstring \<Rightarrow> jsstring" where
  "trim s = rev (dropWhile is_ws (rev (dropWhile is_ws s)))"

text \<open>\<^verbatim>\<open>s.startsWith(p)\<close>\<close>

definition startsWith :: "jsstring \<Rightarrow> jsstring \<Rightarrow> bool" where
  "startsWith s p \<longleftrightarrow> take (length p) s = p"

text \<open>\<^verbatim>\<open>s.slice(k)\<close>: a negative start counts from the end, and the start is clamped
  to the string.\<close>

definition slice_from :: "jsstring \<Rightarrow> int \<Rightarrow> jsstring" where
  "slice_from s k =
     (let n = int (length s);
          from = (if k < 0 then max (n + k) 0 else min k n)
      in drop (nat from) s)"

text \<open>\<^verbatim>\<open>s.indexOf(p)\<close>: the index of the first occurrence of \<open>p\<close>, or \<open>-1\<close>.\<close>

fun indexOf :: "jsstring \<Rightarrow> jsstring \<Rightarrow> int" where
  "indexOf [] p = (if p = [] then 0 else - 1)"
| "indexOf (c # cs) p =
     (if startsWith (c # cs) p then 0
      else (let k = indexOf cs p in if k < 0 then - 1 else k + 1))"

text \<open>\<^verbatim>\<open>s.split(sep)\<close> for a separator of one code unit: the result always has at
  least one element.\<close>

fun split_on :: "jschar \<Rightarrow> jsstring \<Rightarrow> jsstring list" where
  "split_on sep [] = [[]]"
| "split_on sep (c # cs) =
     (if c = sep then [] # split_on sep cs
      else (case split_on sep cs of
              [] \<Rightarrow> [[c]]
            | l # ls \<Rightarrow> (c # l) # ls))"

text \<open>\<^verbatim>\<open>xs.join(sep)\<close>\<close>

fun join :: "jsstring \<Rightarrow> jsstring list \<Rightarrow> jsstring" where
  "join sep [] = []"
| "join sep [x] = x"
| "join sep (x # y # ys) = x @ sep @ join sep (y # ys)"

text \<open>\<^verbatim>\<open>s || undefined\<close> and \<^verbatim>\<open>s || ""\<close> on strings, and the truthiness of an
  optional string: \<^verbatim>\<open>undefined\<close> and the empty string are falsy.\<close>

definition or_undefined :: "jsstring \<Rightarrow> jsstring option" where
  "or_undefined s = (if s = [] then None else Some s)"

definition or_empty :: "jsstring option \<Rightarrow> jsstring" where
  "or_empty x = (case x of None \<Rightarrow> [] | Some s \<Rightarrow> s)"

definition truthy :: "jsstring option \<Rightarrow> bool" where
  "truthy x \<longleftrightarrow> (case x of None \<Rightarrow> False | Some s \<Rightarrow> s \<noteq> [])"

section \<open>Response parser\<close>

text \<open>The four local variables of \<^verbatim>\<open>parseAgentResponse\<close>.\<close>

record parse_vars =
  v_thought :: jsstring
  v_action :: jsstring
  v_actionInput :: jsstring
  v_finalAnswer :: jsstring

text \<open>The object \<^verbatim>\<open>parseAgentResponse\<close> returns; an optional field is
  \<^verbatim>\<open>undefined\<close> when it is \<open>None\<close>.\<close>

record parsed =
  p_thought :: jsstring
  p_action :: "jsstring option"
  p_actionInput :: "jsstring option"
  p_finalAnswer :: "jsstring option"

text \<open>The test that ends the inner capture loop of an \<^verbatim>\<open>Action Input:\<close> line,
  on the trimmed line \<open>nt\<close>.\<close>

definition stops_capture :: "jsstring \<Rightarrow> bool" where
  "stops_capture nt \<longleftrightarrow>
     startsWith nt (js ''Thought:'') \<or> startsWith nt (js ''Action:'') \<or>
     startsWith nt (js ''Final Answer:'') \<or> startsWith nt (js ''Observation:'')"

text \<open>
  The \<^verbatim>\<open>for\<close> loop over \<^verbatim>\<open>lines\<close>: the second argument is the part of
  \<^verbatim>\<open>lines\<close> from index \<open>i\<close> on, so the inner loop over \<open>j > i\<close> reads the tail
  \<open>rest\<close>. The \<^verbatim>\<open>break\<close> of the last branch is the one equation without a
  recursive call.
\<close>

fun parse_lines :: "jsstring \<Rightarrow> jsstring list \<Rightarrow> parse_vars \<Rightarrow> parse_vars" where
  "parse_lines text [] v = v"
| "parse_lines text (line # rest) v =
     (let trimmed = trim line in
      if startsWith trimmed (js ''Thought:'') then
        parse_lines text rest (v\<lparr>v_thought := trim (slice_from trimmed 8)\<rparr>)
      else if startsWith trimmed (js ''Action:'') \<and> \<not> startsWith trimmed (js ''Action Input:'') then
        parse_lines text rest (v\<lparr>v_action := trim (slice_from trimmed 7)\<rparr>)
      else if startsWith trimmed (js ''Action Input:'') then
        (let rest0 = trim (slice_from trimmed 13);
             inputLines = rest0 # takeWhile (\<lambda>l. \<not> stops_capture (trim l)) rest
         in parse_lines text rest (v\<lparr>v_actionInput := trim (join [NL] inputLines)\<rparr>))
      else if startsWith trimmed (js ''Final Answer:'') then
        (let idx = indexOf text (js ''Final Answer:'')
         in v\<lparr>v_finalAnswer := trim (slice_from text (idx + 13))\<rparr>)
      else parse_lines text rest v)"

definition parseAgentResponse :: "jsstring \<Rightarrow> parsed" where
  "parseAgentResponse text =
     (let lines = split_on NL text;
          v = parse_lines text lines
                \<lparr>v_thought = [], v_action = [], v_actionInput = [], v_finalAnswer = []\<rparr>
      in \<lparr>p_thought = v_thought v,
          p_action = or_undefined (v_action v),
          p_actionInput = or_undefined (v_actionInput v),
          p_finalAnswer = or_undefined (v_finalAnswer v)\<rparr>)"

section \<open>Provider catalogue\<close>

text \<open>
  \<^verbatim>\<open>PROVIDERS\<close> of \<^verbatim>\<open>src/providers.ts\<close>, in the insertion order that
  \<^verbatim>\<open>Object.entries\<close> follows. The engine reads the \<^verbatim>\<open>id\<close> and the
  \<^verbatim>\<open>label\<close> of a model only; the two floating-point prices per model are left out.
\<close>

record ModelDef =
  model_id :: jsstring
  label :: jsstring

record ProviderConfig =
  provider_name :: jsstring
  models :: "ModelDef list"
  envKey :: jsstring

definition PROVIDERS :: "(jsstring \<times> ProviderConfig) list" where
  "PROVIDERS =
     [(js ''anthropic'',
         \<lparr>provider_name = js ''Anthropic'',
          models = [\<lparr>model_id = js ''claude-haiku-4-5-20251001'', label = js ''Haiku 4.5''\<rparr>,
                    \<lparr>model_id = js ''claude-sonnet-4-5-20250929'', label = js ''Sonnet 4.5''\<rparr>],
          envKey = js ''ANTHROPIC_API_KEY''\<rparr>),
      (js ''openai'',
         \<lparr>provider_name = js ''OpenAI'',
          models = [\<lparr>model_id = js ''gpt-4o-mini'', label = js ''GPT-4o Mini''\<rparr>,
                    \<lparr>model_id = js ''gpt-4o'', label = js ''GPT-4o''\<rparr>],
          envKey = js ''OPENAI_API_KEY''\<rparr>),
      (js ''gemini'',
         \<lparr>provider_name = js ''Google'',
          models = [\<lparr>model_id = js ''gemini-2.0-flash'', label = js ''Gemini 2.0 Flash''\<rparr>],
          envKey = js ''GEMINI_API_KEY''\<rparr>)]"

text \<open>\<^verbatim>\<open>process.env\<close>\<close>

type_synonym environment = "jsstring \<rightharpoonup> jsstring"

text \<open>\<^verbatim>\<open>getAvailableProviders()\<close> and \<^verbatim>\<open>getApiKey(providerKey)\<close>, called without
  the optional map of explicit keys, as the engine calls them.\<close>

definition getAvailableProviders :: "environment \<Rightarrow> jsstring list" where
  "getAvailableProviders env =
     map fst (filter (\<lambda>(key, cfg). truthy (env (envKey cfg))) PROVIDERS)"

definition getApiKey :: "environment \<Rightarrow> jsstring \<Rightarrow> jsstring option" where
  "getApiKey env providerKey =
     (case map_of PROVIDERS providerKey of
        None \<Rightarrow> None
      | Some cfg \<Rightarrow> env (envKey cfg))"

section \<open>Agent engine\<close>

text \<open>
  Tools and the completion provider are asynchronous functions with effects of their
  own. They are modelled as functions on a world state \<open>'w\<close> that the engine threads
  through its awaits in program order. A call that throws (a rejected promise) returns
  \<open>Inl\<close> with the message of the thrown value, a call that returns gives \<open>Inr\<close>.
\<close>

record 'w AgentTool =
  name :: jsstring
  description :: jsstring
  execute :: "jsstring \<Rightarrow> 'w \<Rightarrow> (jsstring + jsstring) \<times> 'w"

record AgentStep =
  thought :: jsstring
  action :: jsstring
  actionInput :: jsstring
  observation :: jsstring

record AgentResult =
  steps :: "AgentStep list"
  finalAnswer :: jsstring
  totalSteps :: int
  provider :: jsstring

datatype role = User | Assistant

record Message =
  role :: role
  content :: jsstring

text \<open>
  \<^verbatim>\<open>callProviderMultiTurn(providerKey, modelId, systemPrompt, messages, apiKey,
  maxTokens)\<close> is imported from \<^verbatim>\<open>./providers\<close>; it is a parameter of the model.
  The engine reads the \<^verbatim>\<open>text\<close> of its response only. The non-null assertion
  on the API key is erased at run time, so the key is passed as it is looked up.
\<close>

type_synonym 'w completion =
  "jsstring \<Rightarrow> jsstring \<Rightarrow> jsstring \<Rightarrow> Message list \<Rightarrow> jsstring option \<Rightarrow> int \<Rightarrow> 'w
     \<Rightarrow> (jsstring + jsstring) \<times> 'w"

text \<open>The provider call as the loop sees it, with everything but the transcript fixed.\<close>

type_synonym 'w ask = "Message list \<Rightarrow> 'w \<Rightarrow> (jsstring + jsstring) \<times> 'w"

text \<open>What makes \<^verbatim>\<open>runAgent\<close> reject: its own \<^verbatim>\<open>throw\<close>, a completion call
  that throws, and a property read on \<^verbatim>\<open>undefined\<close>.\<close>

datatype agent_error =
  NoProviderConfigured jsstring
| ProviderFailure jsstring
| TypeError

definition buildAgentSystemPrompt :: "'w AgentTool list \<Rightarrow> jsstring" where
  "buildAgentSystemPrompt tools =
     (let toolDescriptions =
            join [NL] (map (\<lambda>t. js ''  '' @ name t @ js '': '' @ description t) tools)
      in join [NL]
           [js ''You are a benchmark analysis agent. You investigate, test, and analyze AI models.'',
            [],
            js ''Available tools:'',
            toolDescriptions,
            [],
            js ''Format (exactly):'',
            [],
            js ''Thought: <your reasoning>'',
            js ''Action: <tool_name>'',
            js ''Action Input: <input for the tool>'',
            [],
            js ''When done:'',
            [],
            js ''Thought: <final reasoning>'',
            js ''Final Answer: <your comprehensive answer>'',
            [],
            js ''Rules:'',
            js ''- One tool per response'',
            js ''- Be thorough: test multiple models, compare, compute statistics'',
            js ''- Final Answer should have clear recommendations'',
            js ''- Do NOT combine Action and Final Answer''])"

text \<open>\<^verbatim>\<open>String(n)\<close> for a length, and \<^verbatim>\<open>[...new Set(xs)]\<close>, which keeps the first
  occurrence of every element in insertion order.\<close>

fun show_nat :: "nat \<Rightarrow> jsstring" where
  "show_nat n =
     (if n < 10 then [of_nat (48 + n)]
      else show_nat (n div 10) @ [of_nat (48 + n mod 10)])"

fun set_order :: "'a list \<Rightarrow> 'a list" where
  "set_order [] = []"
| "set_order (x # xs) = x # set_order (filter (\<lambda>y. y \<noteq> x) xs)"

text \<open>The two arrays the loop pushes to.\<close>

record run_state =
  cur_steps :: "AgentStep list"
  cur_messages :: "Message list"

text \<open>
  The body of the \<^verbatim>\<open>for\<close> loop at index \<open>i\<close>. It gives \<open>Some\<close> result when the
  body returns from \<^verbatim>\<open>runAgent\<close> and \<open>None\<close> when it runs to its end, together with
  the two arrays as the body leaves them. Under the guard \<open>truthy\<close> an optional string
  \<open>x\<close> is \<open>or_empty x\<close>.
\<close>

definition loop_body ::
  "'w ask \<Rightarrow> 'w AgentTool list \<Rightarrow> jsstring \<Rightarrow> int \<Rightarrow> run_state \<Rightarrow> 'w
     \<Rightarrow> (agent_error + AgentResult option \<times> run_state) \<times> 'w" where
  "loop_body ask tools providerLabel i st w =
     (case ask (cur_messages st) w of
        (Inl err, w1) \<Rightarrow> (Inl (ProviderFailure err), w1)
      | (Inr text, w1) \<Rightarrow>
          (let messages1 = cur_messages st @ [\<lparr>role = Assistant, content = text\<rparr>];
               parsed = parseAgentResponse text
           in if truthy (p_finalAnswer parsed) then
                (Inr (Some \<lparr>steps = cur_steps st,
                            finalAnswer = or_empty (p_finalAnswer parsed),
                            totalSteps = i + 1,
                            provider = providerLabel\<rparr>,
                      st\<lparr>cur_messages := messages1\<rparr>), w1)
              else if truthy (p_action parsed) then
                (let act = or_empty (p_action parsed);
                     tool = find (\<lambda>t. name t = act) tools;
                     (observation, w2) =
                       (case tool of
                          Some t \<Rightarrow>
                            (case execute t (or_empty (p_actionInput parsed)) w1 of
                               (Inr out, w2) \<Rightarrow> (out, w2)
                             | (Inl e, w2) \<Rightarrow> (js ''Tool error: '' @ e, w2))
                        | None \<Rightarrow>
                            (js ''Unknown tool: '' @ act @ js ''. Available: '' @
                               join (js '', '') (map name tools), w1));
                     steps1 = cur_steps st @
                       [\<lparr>thought = p_thought parsed,
                         action = act,
                         actionInput = or_empty (p_actionInput parsed),
                         observation = observation\<rparr>];
                     messages2 = messages1 @
                       [\<lparr>role = User,
                         content = js ''Observation: '' @ observation @ [NL, NL] @ js ''Continue.''\<rparr>]
                 in (Inr (None, \<lparr>cur_steps = steps1, cur_messages = messages2\<rparr>), w2))
              else
                (Inr (None,
                      st\<lparr>cur_messages := messages1 @
                         [\<lparr>role = User, content = js ''Use a tool or provide Final Answer.''\<rparr>]\<rparr>),
                 w1)))"

text \<open>\<^verbatim>\<open>for (let i = 0; i < maxSteps; i++)\<close>, from index \<open>i\<close> on.\<close>

function agent_loop ::
  "'w ask \<Rightarrow> 'w AgentTool list \<Rightarrow> jsstring \<Rightarrow> int \<Rightarrow> int \<Rightarrow> run_state \<Rightarrow> 'w
     \<Rightarrow> (agent_error + AgentResult option \<times> run_state) \<times> 'w" where
  "agent_loop ask tools providerLabel maxSteps i st w =
     (if i < maxSteps then
        (case loop_body ask tools providerLabel i st w of
           (Inl e, w') \<Rightarrow> (Inl e, w')
         | (Inr (Some res, st'), w') \<Rightarrow> (Inr (Some res, st'), w')
         | (Inr (None, st'), w') \<Rightarrow> agent_loop ask tools providerLabel maxSteps (i + 1) st' w')
      else (Inr (None, st), w))"
  by pat_completeness auto
termination
  by (relation "measure (\<lambda>(ask, tools, providerLabel, maxSteps, i, st, w). nat (maxSteps - i))") auto

declare agent_loop.simps [simp del]

text \<open>The answer synthesised after the loop.\<close>

definition fallback_answer :: "AgentStep list \<Rightarrow> jsstring" where
  "fallback_answer steps0 =
     (if length steps0 > 0 then
        js ''Agent completed '' @ show_nat (length steps0) @ js '' steps. Tools used: '' @
          join (js '', '') (set_order (map action steps0)) @ js ''.''
      else js ''Agent reached maximum steps without executing tools.'')"

text \<open>
  \<^verbatim>\<open>runAgent({goal, tools, context, maxSteps = 8})\<close>, in the environment \<open>env\<close>, with
  the completion provider \<open>complete\<close>, from the world \<open>w\<close>.
\<close>

definition runAgent ::
  "environment \<Rightarrow> 'w completion \<Rightarrow> jsstring \<Rightarrow> 'w AgentTool list \<Rightarrow> jsstring option
     \<Rightarrow> int option \<Rightarrow> 'w \<Rightarrow> (agent_error + AgentResult) \<times> 'w" where
  "runAgent env complete goal tools context maxSteps0 w =
     (let maxSteps = (case maxSteps0 of None \<Rightarrow> 8 | Some m \<Rightarrow> m);
          availableProviders = getAvailableProviders env
      in if length availableProviders = 0 then
           (Inl (NoProviderConfigured
              (js ''No LLM provider configured. Set ANTHROPIC_API_KEY, OPENAI_API_KEY, or GEMINI_API_KEY.'')), w)
         else
           (case availableProviders of
              [] \<Rightarrow> (Inl TypeError, w)
            | agentProviderKey # _ \<Rightarrow>
                (let agentApiKey = getApiKey env agentProviderKey in
                 case map_of PROVIDERS agentProviderKey of
                   None \<Rightarrow> (Inl TypeError, w)
                 | Some providerCfg \<Rightarrow>
                     (case models providerCfg of
                        [] \<Rightarrow> (Inl TypeError, w)
                      | agentModel # _ \<Rightarrow>
                          (let systemPrompt = buildAgentSystemPrompt tools;
                               contextBlock =
                                 (if truthy context
                                  then [NL, NL] @ js ''Context:'' @ [NL] @ or_empty context
                                  else []);
                               messages =
                                 [\<lparr>role = User,
                                   content = js ''Goal: '' @ goal @ contextBlock @ [NL, NL] @ js ''Begin.''\<rparr>];
                               providerLabel =
                                 label agentModel @ js '' ('' @ provider_name providerCfg @ js '')'';
                               ask = (\<lambda>ms. complete agentProviderKey (model_id agentModel)
                                              systemPrompt ms agentApiKey 2048)
                           in case agent_loop ask tools providerLabel maxSteps 0
                                     \<lparr>cur_steps = [], cur_messages = messages\<rparr> w of
                                (Inl e, w') \<Rightarrow> (Inl e, w')
                              | (Inr (Some res, st'), w') \<Rightarrow> (Inr res, w')
                              | (Inr (None, st'), w') \<Rightarrow>
                                  (Inr \<lparr>steps = cur_steps st',
                                        finalAnswer = fallback_answer (cur_steps st'),
                                        totalSteps = maxSteps,
                                        provider = providerLabel\<rparr>, w'))))))"

section \<open>Notions used to state the properties\<close>

text \<open>The marker tests of the parser loop, on a raw line.\<close>

definition is_final_line :: "jsstring \<Rightarrow> bool" where
  "is_final_line l \<longleftrightarrow> startsWith (trim l) (js ''Final Answer:'')"

definition is_action_line :: "jsstring \<Rightarrow> bool" where
  "is_action_line l \<longleftrightarrow>
     startsWith (trim l) (js ''Action:'') \<and> \<not> startsWith (trim l) (js ''Action Input:'')"

definition is_input_line :: "jsstring \<Rightarrow> bool" where
  "is_input_line l \<longleftrightarrow> startsWith (trim l) (js ''Action Input:'')"

text \<open>The value the parser stores when it meets a \<^verbatim>\<open>Final Answer:\<close> line.\<close>

definition after_marker :: "jsstring \<Rightarrow> jsstring" where
  "after_marker text = trim (slice_from text (indexOf text (js ''Final Answer:'') + 13))"

text \<open>\<open>p\<close> occurs in \<open>s\<close> at index \<open>i\<close> and at no smaller index.\<close>

definition first_occurrence :: "jsstring \<Rightarrow> jsstring \<Rightarrow> nat \<Rightarrow> bool" where
  "first_occurrence s p i \<longleftrightarrow>
     startsWith (drop i s) p \<and> (\<forall>j\<in>{0..<i}. \<not> startsWith (drop j s) p)"

text \<open>
  How \<^verbatim>\<open>runAgent\<close> reads the object the parser returns: a truthy final answer first
  (the \<^verbatim>\<open>if\<close> that returns), then a truthy action (the \<^verbatim>\<open>if\<close> that looks the tool
  up), and the nudge otherwise. The three cases carry the names of the specification's
  directives.
\<close>

datatype directive =
  ToolCall jsstring jsstring jsstring
| FinalAnswer jsstring jsstring
| Unparseable jsstring

definition directive_of :: "jsstring \<Rightarrow> directive" where
  "directive_of raw =
     (let parsed = parseAgentResponse raw in
      if truthy (p_finalAnswer parsed) then
        FinalAnswer (p_thought parsed) (or_empty (p_finalAnswer parsed))
      else if truthy (p_action parsed) then
        ToolCall (p_thought parsed) (or_empty (p_action parsed)) (or_empty (p_actionInput parsed))
      else Unparseable raw)"

text \<open>The initial values of the parser's variables.\<close>

definition init_vars :: parse_vars where
  "init_vars = \<lparr>v_thought = [], v_action = [], v_actionInput = [], v_finalAnswer = []\<rparr>"

text \<open>
  What \<^verbatim>\<open>runAgent\<close> has fixed when it enters its loop: the completion call with
  everything but the transcript filled in, the provider label, and the two arrays, with
  the goal message as the only message. There is none when no provider is configured.
\<close>

definition run_setup ::
  "environment \<Rightarrow> 'w completion \<Rightarrow> jsstring \<Rightarrow> 'w AgentTool list \<Rightarrow> jsstring option
     \<Rightarrow> ('w ask \<times> jsstring \<times> run_state) option" where
  "run_setup env complete goal tools context =
     (case getAvailableProviders env of
        [] \<Rightarrow> None
      | agentProviderKey # _ \<Rightarrow>
          (case map_of PROVIDERS agentProviderKey of
             None \<Rightarrow> None
           | Some providerCfg \<Rightarrow>
               (case models providerCfg of
                  [] \<Rightarrow> None
                | agentModel # _ \<Rightarrow>
                    Some
                      (\<lambda>ms. complete agentProviderKey (model_id agentModel)
                               (buildAgentSystemPrompt tools) ms (getApiKey env agentProviderKey) 2048,
                       label agentModel @ js '' ('' @ provider_name providerCfg @ js '')'',
                       \<lparr>cur_steps = [],
                        cur_messages =
                          [\<lparr>role = User,
                            content = js ''Goal: '' @ goal @
                              (if truthy context
                               then [NL, NL] @ js ''Context:'' @ [NL] @ or_empty context
                               else []) @
                              [NL, NL] @ js ''Begin.''\<rparr>]\<rparr>))))"

text \<open>
  The run completes its budget from iteration \<open>i\<close> on without a final answer: in every
  remaining iteration the completion call returns a reply, the reply is not read as a
  final answer, and the loop body runs to its end.
\<close>

function no_final_answer_run ::
  "'w ask \<Rightarrow> 'w AgentTool list \<Rightarrow> jsstring \<Rightarrow> int \<Rightarrow> int \<Rightarrow> run_state \<Rightarrow> 'w \<Rightarrow> bool" where
  "no_final_answer_run ask tools providerLabel maxSteps i st w =
     (if i < maxSteps then
        (case ask (cur_messages st) w of
           (Inl err, w1) \<Rightarrow> False
         | (Inr reply, w1) \<Rightarrow>
             (case directive_of reply of
                FinalAnswer th ans \<Rightarrow> False
              | _ \<Rightarrow>
                  (case loop_body ask tools providerLabel i st w of
                     (Inr (None, st'), w') \<Rightarrow>
                       no_final_answer_run ask tools providerLabel maxSteps (i + 1) st' w'
                   | _ \<Rightarrow> False)))
      else True)"
  by pat_completeness auto
termination
  by (relation "measure (\<lambda>(ask, tools, providerLabel, maxSteps, i, st, w). nat (maxSteps - i))") auto

declare no_final_answer_run.simps [simp del]

text \<open>The number a string of decimal digits denotes.\<close>

definition digits_value :: "jsstring \<Rightarrow> nat" where
  "digits_value ds = foldl (\<lambda>acc d. 10 * acc + (unat d - 48)) 0 ds"

section \<open>Sample providers, tools and messages\<close>

text \<open>
  In the sample runs the world is a counter of tool executions. A scripted provider
  answers its \<open>n\<close>-th call with the \<open>n\<close>-th reply of the script, counting the assistant
  messages of the transcript, and throws when the script is used up; a steady provider
  gives the same reply to every call. A sample tool returns or throws a fixed value and
  counts its execution.
\<close>

definition scripted :: "jsstring list \<Rightarrow> nat ask" where
  "scripted replies ms w =
     (case drop (length (filter (\<lambda>m. role m = Assistant) ms)) replies of
        [] \<Rightarrow> (Inl (js ''HTTP 500''), w)
      | r # _ \<Rightarrow> (Inr r, w))"

definition scripted_provider :: "jsstring list \<Rightarrow> nat completion" where
  "scripted_provider replies providerKey modelId systemPrompt ms apiKey maxTokens w =
     scripted replies ms w"

definition steady_provider :: "jsstring \<Rightarrow> nat completion" where
  "steady_provider reply providerKey modelId systemPrompt ms apiKey maxTokens w = (Inr reply, w)"

definition sample_tool :: "jsstring \<Rightarrow> jsstring + jsstring \<Rightarrow> nat AgentTool" where
  "sample_tool nm out = \<lparr>name = nm, description = [], execute = (\<lambda>input w. (out, Suc w))\<rparr>"

definition sample_env :: environment where
  "sample_env = [js ''OPENAI_API_KEY'' \<mapsto> js ''sk-test'']"

definition start_state :: run_state where
  "start_state = \<lparr>cur_steps = [], cur_messages = [\<lparr>role = User, content = js ''Goal: g''\<rparr>]\<rparr>"

text \<open>Replies of the model.\<close>

definition msg_no_markers :: jsstring where
  "msg_no_markers = js ''no markers here''"

definition msg_thought_final :: jsstring where
  "msg_thought_final = js ''Thought: done'' @ [NL] @ js ''Final Answer: done''"

definition msg_list_models :: jsstring where
  "msg_list_models =
     js ''Thought: ok'' @ [NL] @ js ''Action: list_available_models'' @ [NL] @ js ''Action Input:''"

definition msg_frobnicate :: jsstring where
  "msg_frobnicate = js ''Thought: ok'' @ [NL] @ js ''Action: frobnicate'' @ [NL] @ js ''Action Input:''"

definition msg_action_boom :: jsstring where
  "msg_action_boom = js ''Action: boom''"

definition msg_action_final :: jsstring where
  "msg_action_final = js ''Action: foo'' @ [NL] @ js ''Final Answer: done''"

definition msg_action_empty_final :: jsstring where
  "msg_action_empty_final = js ''Action: foo'' @ [NL] @ js ''Final Answer:''"

definition msg_action_blank_final :: jsstring where
  "msg_action_blank_final = js ''Action: foo'' @ [NL] @ js ''Final Answer:  ''"

definition msg_action_mid_final :: jsstring where
  "msg_action_mid_final = js ''Action: foo'' @ [NL] @ js ''So Final Answer: x''"

definition msg_final_mid_line :: jsstring where
  "msg_final_mid_line = js ''The Final Answer: 42''"

definition msg_final_then_input :: jsstring where
  "msg_final_then_input = js ''Final Answer: x'' @ [NL] @ js ''Action Input: y''"

definition msg_input_block :: jsstring where
  "msg_input_block =
     js ''Action: run'' @ [NL] @ js ''Action Input: a  '' @ [NL] @ js '' b'' @ [NL] @ js ''Thought: t''"

definition msg_two_inputs :: jsstring where
  "msg_two_inputs = js ''Action Input: a'' @ [NL] @ js ''Action Input: b''"

definition msg_two_actions :: jsstring where
  "msg_two_actions = js ''Action: first'' @ [NL] @ js ''Action: second'' @ [NL] @ js ''Action Input: x''"

definition msg_action_final_action :: jsstring where
  "msg_action_final_action = js ''Action: a'' @ [NL] @ js ''Final Answer: x'' @ [NL] @ js ''Action: b''"

definition msg_blank_final_only :: jsstring where
  "msg_blank_final_only = js ''Final Answer:   ''"

definition msg_use_first :: jsstring where
  "msg_use_first = js ''Action: first''"

definition msg_use_second :: jsstring where
  "msg_use_second = js ''Action: second''"

text \<open>A run of three tool calls within a budget of three; the fourth reply is never asked for.\<close>

definition sample_replies :: "jsstring list" where
  "sample_replies = [msg_use_first, msg_use_second, msg_use_first, msg_thought_final]"

definition sample_tools :: "nat AgentTool list" where
  "sample_tools =
     [sample_tool (js ''first'') (Inr (js ''one'')), sample_tool (js ''second'') (Inl (js ''kaput''))]"

definition sample_start :: run_state where
  "sample_start =
     \<lparr>cur_steps = [],
      cur_messages = [\<lparr>role = User, content = js ''Goal: g'' @ [NL, NL] @ js ''Begin.''\<rparr>]\<rparr>"

section \<open>Strings\<close>

lemma startsWith_Nil [simp]: "startsWith s []"
  by (simp add: startsWith_def)

lemma startsWith_Nil_Cons [simp]: "\<not> startsWith [] (c # p)"
  by (simp add: startsWith_def)

lemma startsWith_Cons_Cons [simp]: "startsWith (a # s) (c # p) \<longleftrightarrow> a = c \<and> startsWith s p"
  by (auto simp: startsWith_def)

lemma startsWith_iff: "startsWith s p \<longleftrightarrow> (\<exists>r. s = p @ r)"
proof
  assume "startsWith s p"
  then have "s = p @ drop (length p) s"
    by (metis append_take_drop_id startsWith_def)
  then show "\<exists>r. s = p @ r" ..
next
  assume "\<exists>r. s = p @ r"
  then show "startsWith s p" by (auto simp: startsWith_def)
qed

lemma final_not_other:
  assumes "startsWith t (js ''Final Answer:'')"
  shows "\<not> startsWith t (js ''Thought:'')" "\<not> startsWith t (js ''Action:'')"
    "\<not> startsWith t (js ''Action Input:'')"
  using assms by (cases t; simp add: js_def)+

lemma input_not_action:
  "startsWith t (js ''Action Input:'') \<Longrightarrow> \<not> startsWith t (js ''Action:'')"
proof
  assume a: "startsWith t (js ''Action Input:'')" and b: "startsWith t (js ''Action:'')"
  from a obtain r where "t = js ''Action Input:'' @ r" by (auto simp: startsWith_iff)
  with b show False by (simp add: js_def)
qed

lemma input_not_thought:
  "startsWith t (js ''Action Input:'') \<Longrightarrow> \<not> startsWith t (js ''Thought:'')"
  by (cases t; simp add: js_def)

lemma action_not_thought:
  "startsWith t (js ''Action:'') \<Longrightarrow> \<not> startsWith t (js ''Thought:'')"
  by (cases t; simp add: js_def)

lemma slice_nonneg: "0 \<le> k \<Longrightarrow> slice_from s k = drop (nat k) s"
  by (simp add: slice_from_def Let_def min_def)

lemma indexOf_ge: "- 1 \<le> indexOf s p"
  by (induction s) (auto simp: Let_def)

lemma indexOf_found: "startsWith (drop i s) p \<Longrightarrow> 0 \<le> indexOf s p \<and> indexOf s p \<le> int i"
proof (induction s arbitrary: i)
  case Nil
  then show ?case by (cases p) auto
next
  case (Cons c cs)
  show ?case
  proof (cases "startsWith (c # cs) p")
    case True
    then show ?thesis by simp
  next
    case False
    with Cons.prems obtain j where j: "i = Suc j" by (cases i) auto
    with Cons.prems have "startsWith (drop j cs) p" by simp
    from Cons.IH [OF this] False j show ?thesis by (simp add: Let_def)
  qed
qed

lemma indexOf_sound: "0 \<le> indexOf s p \<Longrightarrow> startsWith (drop (nat (indexOf s p)) s) p"
proof (induction s)
  case Nil
  then show ?case by (auto split: if_splits)
next
  case (Cons c cs)
  show ?case
  proof (cases "startsWith (c # cs) p")
    case True
    then show ?thesis by simp
  next
    case False
    with Cons.prems have nn: "0 \<le> indexOf cs p" by (auto simp: Let_def split: if_splits)
    with False have "indexOf (c # cs) p = indexOf cs p + 1" by (simp add: Let_def)
    moreover have "nat (indexOf cs p + 1) = Suc (nat (indexOf cs p))" using nn by simp
    ultimately show ?thesis using Cons.IH [OF nn] by simp
  qed
qed

lemma trim_Nil_iff: "trim s = [] \<longleftrightarrow> list_all is_ws s"
proof
  assume "trim s = []"
  then have all: "\<forall>x\<in>set (dropWhile is_ws s). is_ws x"
    by (simp add: trim_def dropWhile_eq_Nil_conv)
  have "dropWhile is_ws s = []"
  proof (rule ccontr)
    assume ne: "dropWhile is_ws s \<noteq> []"
    then have "\<not> is_ws (hd (dropWhile is_ws s))" by (rule hd_dropWhile)
    moreover have "hd (dropWhile is_ws s) \<in> set (dropWhile is_ws s)" using ne by simp
    ultimately show False using all by blast
  qed
  then have "\<forall>x\<in>set s. is_ws x" by (simp only: dropWhile_eq_Nil_conv)
  then show "list_all is_ws s" by (simp add: list_all_iff)
next
  assume "list_all is_ws s"
  then show "trim s = []"
    by (auto simp: trim_def list_all_iff dest: set_dropWhileD)
qed

lemma trim_decomp: "\<exists>a b. s = a @ trim s @ b \<and> list_all is_ws a"
proof -
  let ?d = "dropWhile is_ws s"
  have 1: "s = takeWhile is_ws s @ ?d" by simp
  have "rev (rev ?d) = rev (takeWhile is_ws (rev ?d) @ dropWhile is_ws (rev ?d))"
    by (simp only: takeWhile_dropWhile_id)
  then have 2: "?d = trim s @ rev (takeWhile is_ws (rev ?d))"
    by (simp only: rev_rev_ident rev_append trim_def)
  have "list_all is_ws (takeWhile is_ws s)"
    by (simp add: list_all_iff) (meson set_takeWhileD)
  with 1 2 show ?thesis by metis
qed

lemma split_on_not_Nil [simp]: "split_on sep s \<noteq> []"
  by (induction s) (auto split: list.splits)

lemma join_Cons: "join sep (x # xs) = (if xs = [] then x else x @ sep @ join sep xs)"
  by (cases xs) auto

lemma join_split_on: "join [sep] (split_on sep s) = s"
proof (induction s)
  case Nil
  then show ?case by simp
next
  case (Cons c cs)
  then show ?case
    by (cases "split_on sep cs") (auto simp: join_Cons split: if_splits)
qed

lemma join_append_Cons:
  "join [sep] (pre @ f # post) = concat (map (\<lambda>x. x @ [sep]) pre) @ f @ concat (map (\<lambda>x. sep # x) post)"
proof (induction pre)
  case Nil
  show ?case by (induction post arbitrary: f) (auto simp: join_Cons)
next
  case (Cons p pre)
  then show ?case by (auto simp: join_Cons)
qed

section \<open>The parser loop\<close>

lemma parse_final:
  "is_final_line l \<Longrightarrow> parse_lines text (l # rest) v = v\<lparr>v_finalAnswer := after_marker text\<rparr>"
  by (simp add: is_final_line_def after_marker_def Let_def final_not_other)

lemma parse_action:
  "is_action_line l \<Longrightarrow>
   parse_lines text (l # rest) v = parse_lines text rest (v\<lparr>v_action := trim (slice_from (trim l) 7)\<rparr>)"
  by (simp add: is_action_line_def Let_def action_not_thought)

lemma parse_input:
  "is_input_line l \<Longrightarrow>
   parse_lines text (l # rest) v =
     parse_lines text rest
       (v\<lparr>v_actionInput := trim (join [NL]
           (trim (slice_from (trim l) 13) # takeWhile (\<lambda>x. \<not> stops_capture (trim x)) rest))\<rparr>)"
  by (simp add: is_input_line_def Let_def input_not_thought input_not_action)

declare parse_lines.simps(2) [simp del]

lemma parse_step:
  assumes "\<not> is_final_line l"
  shows "\<exists>v'. parse_lines text (l # rest) v = parse_lines text rest v' \<and>
           v_finalAnswer v' = v_finalAnswer v \<and>
           (\<not> is_input_line l \<longrightarrow> v_actionInput v' = v_actionInput v) \<and>
           (\<not> is_action_line l \<longrightarrow> v_action v' = v_action v)"
proof -
  consider (t) "startsWith (trim l) (js ''Thought:'')"
    | (a) "\<not> startsWith (trim l) (js ''Thought:'')" "is_action_line l"
    | (i) "\<not> startsWith (trim l) (js ''Thought:'')" "\<not> is_action_line l" "is_input_line l"
    | (o) "\<not> startsWith (trim l) (js ''Thought:'')" "\<not> is_action_line l" "\<not> is_input_line l"
    by blast
  then show ?thesis
  proof cases
    case t
    then have "parse_lines text (l # rest) v =
        parse_lines text rest (v\<lparr>v_thought := trim (slice_from (trim l) 8)\<rparr>)"
      by (simp add: parse_lines.simps(2) Let_def)
    moreover from t have "\<not> is_input_line l" "\<not> is_action_line l"
      using input_not_thought action_not_thought by (auto simp: is_input_line_def is_action_line_def)
    ultimately show ?thesis by (intro exI [of _ "v\<lparr>v_thought := trim (slice_from (trim l) 8)\<rparr>"]) simp
  next
    case a
    then have "\<not> is_input_line l" by (simp add: is_action_line_def is_input_line_def)
    with a parse_action [OF a(2), of "text" rest v] show ?thesis
      by (intro exI [of _ "v\<lparr>v_action := trim (slice_from (trim l) 7)\<rparr>"]) simp
  next
    case i
    with parse_input [OF i(3), of "text" rest v] show ?thesis
      by (intro exI [of _ "v\<lparr>v_actionInput := trim (join [NL]
           (trim (slice_from (trim l) 13) # takeWhile (\<lambda>x. \<not> stops_capture (trim x)) rest))\<rparr>"]) simp
  next
    case o
    with assms have "parse_lines text (l # rest) v = parse_lines text rest v"
      by (simp add: parse_lines.simps(2) is_final_line_def is_action_line_def is_input_line_def Let_def)
    then show ?thesis by (intro exI [of _ v]) simp
  qed
qed

lemma final_line_kinds:
  "is_final_line l \<Longrightarrow> \<not> is_action_line l \<and> \<not> is_input_line l"
  by (simp add: is_final_line_def is_action_line_def is_input_line_def final_not_other)

lemma parse_reach:
  "\<forall>x\<in>set pre. \<not> is_final_line x \<Longrightarrow>
   \<exists>v'. parse_lines text (pre @ rest) v = parse_lines text rest v' \<and>
        v_finalAnswer v' = v_finalAnswer v"
proof (induction pre arbitrary: v)
  case Nil
  then show ?case by auto
next
  case (Cons l pre)
  then have "\<not> is_final_line l" by simp
  from parse_step [OF this, of "text" "pre @ rest" v]
  obtain v1 where 1: "parse_lines text (l # pre @ rest) v = parse_lines text (pre @ rest) v1"
    and 2: "v_finalAnswer v1 = v_finalAnswer v" by blast
  from Cons.prems have "\<forall>x\<in>set pre. \<not> is_final_line x" by simp
  from Cons.IH [OF this, of v1] 1 2 show ?case by auto
qed

lemma final_answer_absent:
  "\<forall>x\<in>set ls. \<not> is_final_line x \<Longrightarrow> v_finalAnswer (parse_lines text ls v) = v_finalAnswer v"
  using parse_reach [of ls "text" "[]" v] by auto

lemma final_answer_present:
  assumes "\<exists>x\<in>set ls. is_final_line x"
  shows "v_finalAnswer (parse_lines text ls v) = after_marker text"
proof -
  from assms obtain pre f post where ls: "ls = pre @ f # post"
    and f: "is_final_line f" and pre: "\<forall>x\<in>set pre. \<not> is_final_line x"
    using split_list_first_prop [of ls is_final_line] by blast
  from parse_reach [OF pre, of "text" "f # post" v] obtain v'
    where "parse_lines text ls v = parse_lines text (f # post) v'" using ls by auto
  with parse_final [OF f] show ?thesis by simp
qed

lemma action_kept:
  "\<forall>x\<in>set (takeWhile (\<lambda>x. \<not> is_final_line x) ls). \<not> is_action_line x \<Longrightarrow>
   v_action (parse_lines text ls v) = v_action v"
proof (induction ls arbitrary: v)
  case Nil
  then show ?case by simp
next
  case (Cons l ls)
  show ?case
  proof (cases "is_final_line l")
    case True
    then show ?thesis by (simp add: parse_final)
  next
    case False
    with Cons.prems have na: "\<not> is_action_line l"
      and rest: "\<forall>x\<in>set (takeWhile (\<lambda>x. \<not> is_final_line x) ls). \<not> is_action_line x" by auto
    from parse_step [OF False, of "text" ls v] na obtain v1
      where "parse_lines text (l # ls) v = parse_lines text ls v1" "v_action v1 = v_action v" by blast
    with Cons.IH [OF rest, of v1] show ?thesis by simp
  qed
qed

lemma input_kept:
  "\<forall>x\<in>set (takeWhile (\<lambda>x. \<not> is_final_line x) ls). \<not> is_input_line x \<Longrightarrow>
   v_actionInput (parse_lines text ls v) = v_actionInput v"
proof (induction ls arbitrary: v)
  case Nil
  then show ?case by simp
next
  case (Cons l ls)
  show ?case
  proof (cases "is_final_line l")
    case True
    then show ?thesis by (simp add: parse_final)
  next
    case False
    with Cons.prems have na: "\<not> is_input_line l"
      and rest: "\<forall>x\<in>set (takeWhile (\<lambda>x. \<not> is_final_line x) ls). \<not> is_input_line x" by auto
    from parse_step [OF False, of "text" ls v] na obtain v1
      where "parse_lines text (l # ls) v = parse_lines text ls v1" "v_actionInput v1 = v_actionInput v" by blast
    with Cons.IH [OF rest, of v1] show ?thesis by simp
  qed
qed

lemma takeWhile_append_stop: "\<not> P y \<Longrightarrow> takeWhile P (xs @ y # ys) = takeWhile P xs"
  by (induction xs) auto

lemma final_stops_capture: "is_final_line f \<Longrightarrow> stops_capture (trim f)"
  by (simp add: is_final_line_def stops_capture_def)

lemma parse_stops:
  assumes "is_final_line f"
  shows "\<forall>x\<in>set pre. \<not> is_final_line x \<Longrightarrow>
    parse_lines text (pre @ f # post) v = (parse_lines text pre v)\<lparr>v_finalAnswer := after_marker text\<rparr>"
proof (induction pre arbitrary: v)
  case Nil
  then show ?case by (simp add: parse_final [OF assms])
next
  case (Cons l pre)
  then have nf: "\<not> is_final_line l" and pre: "\<forall>x\<in>set pre. \<not> is_final_line x" by auto
  have tw: "takeWhile (\<lambda>x. \<not> stops_capture (trim x)) (pre @ f # post) =
            takeWhile (\<lambda>x. \<not> stops_capture (trim x)) pre"
    using final_stops_capture [OF assms] by (simp add: takeWhile_append_stop)
  from nf have nf': "\<not> startsWith (trim l) (js ''Final Answer:'')" by (simp add: is_final_line_def)
  show ?case
    using Cons.IH [OF pre] nf' by (simp add: parse_lines.simps(2) Let_def tw)
qed

lemma indexOf_first: "first_occurrence s p i \<Longrightarrow> indexOf s p = int i"
proof -
  assume fo: "first_occurrence s p i"
  then have "startsWith (drop i s) p" by (simp add: first_occurrence_def)
  from indexOf_found [OF this] have b: "0 \<le> indexOf s p" "indexOf s p \<le> int i" by auto
  from indexOf_sound [OF b(1)] have "startsWith (drop (nat (indexOf s p)) s) p" .
  with fo have "\<not> nat (indexOf s p) < i" by (auto simp: first_occurrence_def)
  with b show ?thesis by linarith
qed

lemma first_indexOf: "0 \<le> indexOf s p \<Longrightarrow> first_occurrence s p (nat (indexOf s p))"
proof -
  assume nn: "0 \<le> indexOf s p"
  have "\<not> startsWith (drop j s) p" if "j < nat (indexOf s p)" for j
  proof
    assume "startsWith (drop j s) p"
    from indexOf_found [OF this] that show False by linarith
  qed
  with indexOf_sound [OF nn] show ?thesis by (simp add: first_occurrence_def)
qed

lemma indexOf_occurs: "s = a @ p @ b \<Longrightarrow> 0 \<le> indexOf s p \<and> indexOf s p \<le> int (length a)"
  by (rule indexOf_found) (simp add: startsWith_iff)

lemma final_line_decomp:
  assumes "is_final_line f"
  shows "\<exists>a b. f = a @ js ''Final Answer:'' @ b"
proof -
  from trim_decomp [of f] obtain a b where f: "f = a @ trim f @ b" by blast
  from assms obtain r where "trim f = js ''Final Answer:'' @ r"
    by (auto simp: is_final_line_def startsWith_iff)
  with f have "f = a @ js ''Final Answer:'' @ (r @ b)" by simp
  then show ?thesis by blast
qed

lemma text_of_lines:
  assumes "split_on NL s = pre @ f # post"
  shows "s = concat (map (\<lambda>x. x @ [NL]) pre) @ f @ concat (map (\<lambda>x. NL # x) post)"
  using join_split_on [of NL s] assms by (simp add: join_append_Cons)

lemma final_line_occurs:
  assumes "f \<in> set (split_on NL s)" "is_final_line f"
  shows "0 \<le> indexOf s (js ''Final Answer:'')"
proof -
  from assms(1) obtain pre post where "split_on NL s = pre @ f # post"
    by (auto simp: in_set_conv_decomp)
  from text_of_lines [OF this] final_line_decomp [OF assms(2)]
  obtain P Q a b where "s = P @ (a @ js ''Final Answer:'' @ b) @ Q" by metis
  then have "s = (P @ a) @ js ''Final Answer:'' @ (b @ Q)" by simp
  from indexOf_occurs [OF this] show ?thesis by simp
qed

lemma after_marker_drop:
  "0 \<le> indexOf s (js ''Final Answer:'') \<Longrightarrow>
   after_marker s = trim (drop (nat (indexOf s (js ''Final Answer:'')) + 13) s)"
  by (simp add: after_marker_def slice_nonneg nat_add_distrib)

lemma blank_after_final:
  assumes lines: "split_on NL s = pre @ f # post"
    and f: "is_final_line f"
    and blank: "after_marker s = []"
  shows "\<forall>x\<in>set post. list_all is_ws x"
proof -
  let ?Q = "concat (map (\<lambda>x. NL # x) post)"
  from final_line_decomp [OF f] obtain a b where fd: "f = a @ js ''Final Answer:'' @ b" by blast
  let ?A = "concat (map (\<lambda>x. x @ [NL]) pre) @ a"
  from text_of_lines [OF lines] fd have s: "s = ?A @ js ''Final Answer:'' @ (b @ ?Q)" by simp
  from indexOf_occurs [OF s] have idx: "0 \<le> indexOf s (js ''Final Answer:'')"
    "indexOf s (js ''Final Answer:'') \<le> int (length ?A)" by auto
  let ?k = "nat (indexOf s (js ''Final Answer:''))"
  from blank idx(1) have ws: "list_all is_ws (drop (?k + 13) s)"
    by (simp add: after_marker_drop trim_Nil_iff)
  have len: "length (js ''Final Answer:'') = 13" by (simp add: js_def)
  have "drop (length ?A + 13) s = b @ ?Q"
    by (subst s) (simp add: len)
  moreover have "length ?A - ?k + (?k + 13) = length ?A + 13"
    using idx by linarith
  then have "drop (length ?A + 13) s = drop (length ?A - ?k) (drop (?k + 13) s)"
    by (simp only: drop_drop)
  ultimately have "set ?Q \<subseteq> set (drop (?k + 13) s)"
    by (metis set_drop_subset set_append le_sup_iff)
  with ws have q: "\<forall>c\<in>set ?Q. is_ws c" unfolding list_all_iff by blast
  have "set x \<subseteq> set ?Q" if "x \<in> set post" for x using that by auto
  with q show ?thesis unfolding list_all_iff by blast
qed

lemma action_line_not_blank: "is_action_line x \<Longrightarrow> \<not> list_all is_ws x"
proof
  assume "is_action_line x" "list_all is_ws x"
  then have "trim x = []" "startsWith (trim x) (js ''Action:'')"
    by (simp_all add: trim_Nil_iff is_action_line_def)
  then show False by (simp add: js_def)
qed

section \<open>The engine loop\<close>

lemma loop_body_failure:
  "ask (cur_messages st) w = (Inl m, w1) \<Longrightarrow>
   loop_body ask tools lbl i st w = (Inl (ProviderFailure m), w1)"
  by (simp add: loop_body_def)

lemma loop_body_final:
  assumes "ask (cur_messages st) w = (Inr t, w1)" "truthy (p_finalAnswer (parseAgentResponse t))"
  shows "loop_body ask tools lbl i st w =
     (Inr (Some \<lparr>steps = cur_steps st,
                 finalAnswer = or_empty (p_finalAnswer (parseAgentResponse t)),
                 totalSteps = i + 1, provider = lbl\<rparr>,
           st\<lparr>cur_messages := cur_messages st @ [\<lparr>role = Assistant, content = t\<rparr>]\<rparr>), w1)"
  using assms by (simp add: loop_body_def Let_def)

lemma loop_body_nudge:
  assumes "ask (cur_messages st) w = (Inr t, w1)" "\<not> truthy (p_finalAnswer (parseAgentResponse t))"
    "\<not> truthy (p_action (parseAgentResponse t))"
  shows "loop_body ask tools lbl i st w =
     (Inr (None,
           st\<lparr>cur_messages := cur_messages st @
              [\<lparr>role = Assistant, content = t\<rparr>,
               \<lparr>role = User, content = js ''Use a tool or provide Final Answer.''\<rparr>]\<rparr>), w1)"
  using assms by (simp add: loop_body_def Let_def)

lemma loop_body_unknown:
  assumes "ask (cur_messages st) w = (Inr t, w1)" "\<not> truthy (p_finalAnswer (parseAgentResponse t))"
    "truthy (p_action (parseAgentResponse t))"
    "find (\<lambda>x. name x = or_empty (p_action (parseAgentResponse t))) tools = None"
    "obs = js ''Unknown tool: '' @ or_empty (p_action (parseAgentResponse t)) @
           js ''. Available: '' @ join (js '', '') (map name tools)"
  shows "loop_body ask tools lbl i st w =
     (Inr (None,
           \<lparr>cur_steps = cur_steps st @
              [\<lparr>thought = p_thought (parseAgentResponse t),
                action = or_empty (p_action (parseAgentResponse t)),
                actionInput = or_empty (p_actionInput (parseAgentResponse t)),
                observation = obs\<rparr>],
            cur_messages = cur_messages st @
              [\<lparr>role = Assistant, content = t\<rparr>,
               \<lparr>role = User, content = js ''Observation: '' @ obs @ [NL, NL] @ js ''Continue.''\<rparr>]\<rparr>), w1)"
  using assms by (simp add: loop_body_def Let_def)

lemma loop_body_tool:
  assumes "ask (cur_messages st) w = (Inr t, w1)" "\<not> truthy (p_finalAnswer (parseAgentResponse t))"
    "truthy (p_action (parseAgentResponse t))"
    "find (\<lambda>x. name x = or_empty (p_action (parseAgentResponse t))) tools = Some tool"
    "execute tool (or_empty (p_actionInput (parseAgentResponse t))) w1 = (out, w2)"
    "obs = (case out of Inr s \<Rightarrow> s | Inl e \<Rightarrow> js ''Tool error: '' @ e)"
  shows "loop_body ask tools lbl i st w =
     (Inr (None,
           \<lparr>cur_steps = cur_steps st @
              [\<lparr>thought = p_thought (parseAgentResponse t),
                action = or_empty (p_action (parseAgentResponse t)),
                actionInput = or_empty (p_actionInput (parseAgentResponse t)),
                observation = obs\<rparr>],
            cur_messages = cur_messages st @
              [\<lparr>role = Assistant, content = t\<rparr>,
               \<lparr>role = User, content = js ''Observation: '' @ obs @ [NL, NL] @ js ''Continue.''\<rparr>]\<rparr>), w2)"
  using assms by (cases out) (simp_all add: loop_body_def Let_def)

lemma loop_body_cases:
  assumes "ask (cur_messages st) w = (Inr t, w1)"
  obtains
    (final) res where "truthy (p_finalAnswer (parseAgentResponse t))"
      "loop_body ask tools lbl i st w =
         (Inr (Some res, st\<lparr>cur_messages := cur_messages st @ [\<lparr>role = Assistant, content = t\<rparr>]\<rparr>), w1)"
      "totalSteps res = i + 1" "steps res = cur_steps st"
  | (continue) u st' w' where "\<not> truthy (p_finalAnswer (parseAgentResponse t))"
      "loop_body ask tools lbl i st w = (Inr (None, st'), w')"
      "cur_messages st' = cur_messages st @ [\<lparr>role = Assistant, content = t\<rparr>, \<lparr>role = User, content = u\<rparr>]"
      "u = js ''Use a tool or provide Final Answer.'' \<or>
       (\<exists>obs. u = js ''Observation: '' @ obs @ [NL, NL] @ js ''Continue.'')"
proof (cases "truthy (p_finalAnswer (parseAgentResponse t))")
  case True
  with assms have "loop_body ask tools lbl i st w =
     (Inr (Some \<lparr>steps = cur_steps st,
                 finalAnswer = or_empty (p_finalAnswer (parseAgentResponse t)),
                 totalSteps = i + 1, provider = lbl\<rparr>,
           st\<lparr>cur_messages := cur_messages st @ [\<lparr>role = Assistant, content = t\<rparr>]\<rparr>), w1)"
    by (simp add: loop_body_final)
  then show ?thesis by (rule final [OF True]) simp_all
next
  case nf: False
  show ?thesis
  proof (cases "truthy (p_action (parseAgentResponse t))")
    case False
    from loop_body_nudge [where ask = ask, OF assms nf False]
    show ?thesis
      by (rule continue [OF nf, where u = "js ''Use a tool or provide Final Answer.''"]) simp_all
  next
    case act: True
    show ?thesis
    proof (cases "find (\<lambda>x. name x = or_empty (p_action (parseAgentResponse t))) tools")
      case None
      let ?obs = "js ''Unknown tool: '' @ or_empty (p_action (parseAgentResponse t)) @
           js ''. Available: '' @ join (js '', '') (map name tools)"
      from loop_body_unknown [where ask = ask, OF assms nf act None refl]
      show ?thesis
        by (rule continue [OF nf, where u = "js ''Observation: '' @ ?obs @ [NL, NL] @ js ''Continue.''"])
          (simp, blast)
    next
      case (Some tool)
      obtain out w2 where ex: "execute tool (or_empty (p_actionInput (parseAgentResponse t))) w1 = (out, w2)"
        by (cases "execute tool (or_empty (p_actionInput (parseAgentResponse t))) w1")
      let ?obs = "case out of Inr s \<Rightarrow> s | Inl e \<Rightarrow> js ''Tool error: '' @ e"
      from loop_body_tool [where ask = ask, OF assms nf act Some ex refl]
      show ?thesis
        by (rule continue [OF nf, where u = "js ''Observation: '' @ ?obs @ [NL, NL] @ js ''Continue.''"])
          (simp, blast)
    qed
  qed
qed

lemma agent_loop_done: "\<not> i < maxSteps \<Longrightarrow> agent_loop ask tools lbl maxSteps i st w = (Inr (None, st), w)"
  by (subst agent_loop.simps) simp

lemma agent_loop_fail:
  "i < maxSteps \<Longrightarrow> loop_body ask tools lbl i st w = (Inl e, w1) \<Longrightarrow>
   agent_loop ask tools lbl maxSteps i st w = (Inl e, w1)"
  by (subst agent_loop.simps) simp

lemma agent_loop_return:
  "i < maxSteps \<Longrightarrow> loop_body ask tools lbl i st w = (Inr (Some res, st1), w1) \<Longrightarrow>
   agent_loop ask tools lbl maxSteps i st w = (Inr (Some res, st1), w1)"
  by (subst agent_loop.simps) simp

lemma agent_loop_continue:
  "i < maxSteps \<Longrightarrow> loop_body ask tools lbl i st w = (Inr (None, st1), w1) \<Longrightarrow>
   agent_loop ask tools lbl maxSteps i st w = agent_loop ask tools lbl maxSteps (i + 1) st1 w1"
  by (subst agent_loop.simps) simp

lemma agent_loop_bound:
  "agent_loop ask tools lbl maxSteps i st w = (Inr (Some res, st'), w') \<Longrightarrow>
   i < totalSteps res \<and> totalSteps res \<le> maxSteps"
proof (induction n \<equiv> "nat (maxSteps - i)" arbitrary: i st w)
  case 0
  then show ?case by (simp add: agent_loop_done)
next
  case (Suc n)
  then have lt: "i < maxSteps" and n: "n = nat (maxSteps - (i + 1))" by linarith+
  obtain r w1 where a: "ask (cur_messages st) w = (r, w1)" by (cases "ask (cur_messages st) w")
  show ?case
  proof (cases r)
    case (Inl m)
    with a Suc.prems lt show ?thesis
      by (simp add: agent_loop_fail [OF lt loop_body_failure])
  next
    case (Inr t)
    with a have "ask (cur_messages st) w = (Inr t, w1)" by simp
    then show ?thesis
    proof (cases rule: loop_body_cases [where tools = tools and lbl = lbl and i = i])
      case (final res0)
      with Suc.prems lt show ?thesis by (simp add: agent_loop_return [OF lt final(2)])
    next
      case (continue u st1 w2)
      with Suc.prems have "agent_loop ask tools lbl maxSteps (i + 1) st1 w2 = (Inr (Some res, st'), w')"
        by (simp add: agent_loop_continue [OF lt continue(2)])
      from Suc.hyps(1) [OF n this] show ?thesis by simp
    qed
  qed
qed

lemma agent_loop_cases [case_names finished failed returned continued]:
  assumes "\<And>i st w. \<not> i < maxSteps \<Longrightarrow> P i st w (Inr (None, st), w)"
    and "\<And>i st w m w1. i < maxSteps \<Longrightarrow> ask (cur_messages st) w = (Inl m, w1) \<Longrightarrow>
           P i st w (Inl (ProviderFailure m), w1)"
    and "\<And>i st w t w1 res.
           i < maxSteps \<Longrightarrow> ask (cur_messages st) w = (Inr t, w1) \<Longrightarrow>
           truthy (p_finalAnswer (parseAgentResponse t)) \<Longrightarrow>
           totalSteps res = i + 1 \<Longrightarrow> steps res = cur_steps st \<Longrightarrow>
           P i st w (Inr (Some res,
              st\<lparr>cur_messages := cur_messages st @ [\<lparr>role = Assistant, content = t\<rparr>]\<rparr>), w1)"
    and "\<And>i st w t w1 u st1 w2.
           i < maxSteps \<Longrightarrow> ask (cur_messages st) w = (Inr t, w1) \<Longrightarrow>
           \<not> truthy (p_finalAnswer (parseAgentResponse t)) \<Longrightarrow>
           loop_body ask tools lbl i st w = (Inr (None, st1), w2) \<Longrightarrow>
           cur_messages st1 = cur_messages st @
             [\<lparr>role = Assistant, content = t\<rparr>, \<lparr>role = User, content = u\<rparr>] \<Longrightarrow>
           P (i + 1) st1 w2 (agent_loop ask tools lbl maxSteps (i + 1) st1 w2) \<Longrightarrow>
           P i st w (agent_loop ask tools lbl maxSteps (i + 1) st1 w2)"
  shows "P i st w (agent_loop ask tools lbl maxSteps i st w)"
proof (induction n \<equiv> "nat (maxSteps - i)" arbitrary: i st w)
  case 0
  then have "\<not> i < maxSteps" by simp
  with assms(1) show ?case by (simp add: agent_loop_done)
next
  case (Suc n)
  then have lt: "i < maxSteps" and n: "n = nat (maxSteps - (i + 1))" by linarith+
  obtain r w1 where a: "ask (cur_messages st) w = (r, w1)" by (cases "ask (cur_messages st) w")
  show ?case
  proof (cases r)
    case (Inl m)
    with a have a': "ask (cur_messages st) w = (Inl m, w1)" by simp
    from assms(2) [OF lt a'] show ?thesis
      by (simp add: agent_loop_fail [OF lt loop_body_failure [where ask = ask, OF a']])
  next
    case (Inr t)
    with a have a': "ask (cur_messages st) w = (Inr t, w1)" by simp
    then show ?thesis
    proof (cases rule: loop_body_cases [where tools = tools and lbl = lbl and i = i])
      case (final res0)
      from assms(3) [OF lt a' final(1,3,4)] show ?thesis
        by (simp add: agent_loop_return [OF lt final(2)])
    next
      case (continue u st1 w2)
      from assms(4) [OF lt a' continue(1,2,3) Suc.hyps(1) [OF n]] show ?thesis
        by (simp add: agent_loop_continue [OF lt continue(2)])
    qed
  qed
qed

lemma agent_loop_never_fails:
  assumes "\<And>ms w0. \<exists>t w1. ask ms w0 = (Inr t, w1)"
  shows "\<exists>r st' w'. agent_loop ask tools lbl maxSteps i st w = (Inr (r, st'), w')"
proof (rule agent_loop_cases [where P = "\<lambda>i st w x. \<exists>r st' w'. x = (Inr (r, st'), w')"])
  fix i st w m w1
  assume "ask (cur_messages st) w = (Inl m, w1)"
  with assms [of "cur_messages st" w]
  show "\<exists>r st' w'. (Inl (ProviderFailure m), w1) = (Inr (r, st'), w')" by simp
qed auto

lemma agent_loop_failure:
  assumes "agent_loop ask tools lbl maxSteps i st w = (Inl e, w')"
  shows "\<exists>ms w0 m. e = ProviderFailure m \<and> ask ms w0 = (Inl m, w')"
proof -
  have "\<forall>e w'. agent_loop ask tools lbl maxSteps i st w = (Inl e, w') \<longrightarrow>
          (\<exists>ms w0 m. e = ProviderFailure m \<and> ask ms w0 = (Inl m, w'))"
    by (rule agent_loop_cases [where P = "\<lambda>i st w x. \<forall>e w'. x = (Inl e, w') \<longrightarrow>
          (\<exists>ms w0 m. e = ProviderFailure m \<and> ask ms w0 = (Inl m, w'))"]) auto
  with assms show ?thesis by blast
qed

lemma agent_loop_not_final:
  assumes "\<And>ms w0 t w1. ask ms w0 = (Inr t, w1) \<Longrightarrow> \<not> truthy (p_finalAnswer (parseAgentResponse t))"
    and "agent_loop ask tools lbl maxSteps i st w = (Inr (r, st'), w')"
  shows "r = None"
proof -
  have "\<forall>r st' w'. agent_loop ask tools lbl maxSteps i st w = (Inr (r, st'), w') \<longrightarrow> r = None"
    by (rule agent_loop_cases [where P = "\<lambda>i st w x. \<forall>r st' w'. x = (Inr (r, st'), w') \<longrightarrow> r = None"])
      (use assms(1) in auto)
  with assms(2) show ?thesis by blast
qed


lemma agent_loop_steps:
  assumes "agent_loop ask tools lbl maxSteps i st w = (Inr (Some res, st'), w')"
  shows "steps res = cur_steps st'"
proof -
  have "\<forall>res st' w'. agent_loop ask tools lbl maxSteps i st w = (Inr (Some res, st'), w') \<longrightarrow>
          steps res = cur_steps st'"
    by (rule agent_loop_cases [where P = "\<lambda>i st w x. \<forall>res st' w'. x = (Inr (Some res, st'), w') \<longrightarrow>
          steps res = cur_steps st'"]) auto
  with assms show ?thesis by blast
qed

lemma available_provider:
  assumes "getAvailableProviders env = k # ks"
  shows "\<exists>cfg m ms. map_of PROVIDERS k = Some cfg \<and> models cfg = m # ms"
proof -
  from assms have "k \<in> set (map fst PROVIDERS)"
    by (metis (no_types, lifting) getAvailableProviders_def filter_is_subset image_mono list.set_intros(1) list.set_map subsetD)
  then have "k = js ''anthropic'' \<or> k = js ''openai'' \<or> k = js ''gemini''"
    by (auto simp: PROVIDERS_def)
  then show ?thesis by (auto simp: PROVIDERS_def js_def)
qed

lemma or_empty_or_undefined [simp]: "or_empty (or_undefined s) = s"
  by (simp add: or_empty_def or_undefined_def)

lemma truthy_or_undefined [simp]: "truthy (or_undefined s) \<longleftrightarrow> s \<noteq> []"
  by (simp add: truthy_def or_undefined_def)

lemma or_undefined_None [simp]: "or_undefined s = None \<longleftrightarrow> s = []"
  by (simp add: or_undefined_def)

lemma or_undefined_Some: "s \<noteq> [] \<Longrightarrow> or_undefined s = Some s"
  by (simp add: or_undefined_def)

lemma parse_fields:
  "p_thought (parseAgentResponse s) = v_thought (parse_lines s (split_on NL s) init_vars)"
  "p_action (parseAgentResponse s) = or_undefined (v_action (parse_lines s (split_on NL s) init_vars))"
  "p_actionInput (parseAgentResponse s) = or_undefined (v_actionInput (parse_lines s (split_on NL s) init_vars))"
  "p_finalAnswer (parseAgentResponse s) = or_undefined (v_finalAnswer (parse_lines s (split_on NL s) init_vars))"
  by (simp_all add: parseAgentResponse_def init_vars_def Let_def)

lemma first_after_marker:
  "first_occurrence s (js ''Final Answer:'') k \<Longrightarrow> after_marker s = trim (drop (k + 13) s)"
  by (simp add: after_marker_def indexOf_first slice_nonneg nat_add_distrib)

lemma final_answer_cases:
  "v_finalAnswer (parse_lines s ls v) = v_finalAnswer v \<or>
   v_finalAnswer (parse_lines s ls v) = after_marker s"
proof (cases "\<exists>x\<in>set ls. is_final_line x")
  case True
  then show ?thesis by (simp add: final_answer_present)
next
  case False
  then show ?thesis by (simp add: final_answer_absent)
qed

lemma parsed_final_line:
  assumes "f \<in> set (split_on NL s)" "is_final_line f"
  shows "p_finalAnswer (parseAgentResponse s) = or_undefined (after_marker s)"
  using assms by (simp add: parse_fields final_answer_present [where ls = "split_on NL s"] bexI [of _ f])

lemma loop_body_not_final:
  assumes "ask (cur_messages st) w = (Inr t, w1)" "\<not> truthy (p_finalAnswer (parseAgentResponse t))"
  shows "\<exists>st' w'. loop_body ask tools lbl i st w = (Inr (None, st'), w') \<and>
     (if truthy (p_action (parseAgentResponse t)) then
        \<exists>obs. cur_steps st' = cur_steps st @
                 [\<lparr>thought = p_thought (parseAgentResponse t),
                   action = or_empty (p_action (parseAgentResponse t)),
                   actionInput = or_empty (p_actionInput (parseAgentResponse t)),
                   observation = obs\<rparr>] \<and>
              cur_messages st' = cur_messages st @
                 [\<lparr>role = Assistant, content = t\<rparr>,
                  \<lparr>role = User, content = js ''Observation: '' @ obs @ [NL, NL] @ js ''Continue.''\<rparr>]
      else cur_steps st' = cur_steps st \<and> w' = w1 \<and>
           cur_messages st' = cur_messages st @
             [\<lparr>role = Assistant, content = t\<rparr>,
              \<lparr>role = User, content = js ''Use a tool or provide Final Answer.''\<rparr>])"
proof (cases "truthy (p_action (parseAgentResponse t))")
  case False
  from loop_body_nudge [where ask = ask, OF assms False, of tools lbl i] False
  show ?thesis by simp
next
  case act: True
  show ?thesis
  proof (cases "find (\<lambda>x. name x = or_empty (p_action (parseAgentResponse t))) tools")
    case None
    from loop_body_unknown [where ask = ask, OF assms act None refl, of lbl i] act
    show ?thesis by simp
  next
    case (Some tool)
    obtain out w2 where ex: "execute tool (or_empty (p_actionInput (parseAgentResponse t))) w1 = (out, w2)"
      by (cases "execute tool (or_empty (p_actionInput (parseAgentResponse t))) w1")
    from loop_body_tool [where ask = ask, OF assms act Some ex refl, of lbl i] act
    show ?thesis by simp
  qed
qed

lemma first_occurrence_iff:
  "first_occurrence s p i \<longleftrightarrow> 0 \<le> indexOf s p \<and> nat (indexOf s p) = i"
  using indexOf_first [of s p i] first_indexOf [of s p] by auto

lemmas string_eval =
  js_def NL_def trim_def is_ws_def slice_from_def Let_def or_undefined_def or_empty_def truthy_def

lemmas parser_eval =
  parseAgentResponse_def parse_lines.simps(2) stops_capture_def string_eval

section \<open>Whole messages and whole runs\<close>

lemma parsed_stops:
  assumes "split_on NL s = pre @ f # post" "is_final_line f" "\<forall>x\<in>set pre. \<not> is_final_line x"
  shows "parse_lines s (split_on NL s) init_vars =
         (parse_lines s pre init_vars)\<lparr>v_finalAnswer := after_marker s\<rparr>"
  using parse_stops [OF assms(2,3), of s post init_vars] assms(1) by simp

lemma last_action_parsed:
  assumes lines: "split_on NL s = pre @ l # post"
    and l: "is_action_line l"
    and post: "\<forall>x\<in>set post. \<not> is_action_line x"
    and nf: "\<not> truthy (p_finalAnswer (parseAgentResponse s))"
  shows "p_action (parseAgentResponse s) = or_undefined (trim (slice_from (trim l) 7))"
proof -
  have pre: "\<forall>x\<in>set pre. \<not> is_final_line x"
  proof (rule ccontr)
    assume "\<not> (\<forall>x\<in>set pre. \<not> is_final_line x)"
    then have "\<exists>x\<in>set pre. is_final_line x" by blast
    then obtain p1 f p2 where pre: "pre = p1 @ f # p2" and f: "is_final_line f"
      using split_list_first_prop [of pre is_final_line] by blast
    then have lines': "split_on NL s = p1 @ f # (p2 @ l # post)" using lines by simp
    then have "f \<in> set (split_on NL s)" by simp
    from parsed_final_line [OF this f] nf have "after_marker s = []" by simp
    from blank_after_final [OF lines' f this] have "list_all is_ws l" by simp
    with action_line_not_blank [OF l] show False by simp
  qed
  from parse_reach [OF pre, of s "l # post" init_vars] obtain v1
    where "parse_lines s (split_on NL s) init_vars = parse_lines s (l # post) v1"
    using lines by auto
  then have eq: "parse_lines s (split_on NL s) init_vars =
      parse_lines s post (v1\<lparr>v_action := trim (slice_from (trim l) 7)\<rparr>)"
    by (simp add: parse_action [OF l])
  have "\<forall>x\<in>set (takeWhile (\<lambda>x. \<not> is_final_line x) post). \<not> is_action_line x"
    using post by (meson set_takeWhileD)
  from action_kept [OF this] eq
  have "v_action (parse_lines s (split_on NL s) init_vars) = trim (slice_from (trim l) 7)"
    by simp
  then show ?thesis by (simp add: parse_fields)
qed

lemma parsed_action_nonempty: "p_action (parseAgentResponse s) = Some a \<Longrightarrow> a \<noteq> []"
  by (auto simp: parse_fields or_undefined_def split: if_splits)

lemma set_order_set [simp]: "set (set_order xs) = set xs"
  by (induction xs rule: set_order.induct) auto

lemma set_order_distinct [simp]: "distinct (set_order xs)"
  by (induction xs rule: set_order.induct) auto

lemma runAgent_unconfigured:
  "getAvailableProviders env = [] \<Longrightarrow>
   \<exists>msg. runAgent env complete goal tools ctx maxSteps0 w = (Inl (NoProviderConfigured msg), w)"
  by (simp add: runAgent_def)

lemma runAgent_configured:
  assumes "getAvailableProviders env \<noteq> []"
  shows "\<exists>k m s a lbl msgs.
    runAgent env complete goal tools ctx maxSteps0 w =
      (case agent_loop (\<lambda>ms. complete k m s ms a 2048) tools lbl
               (case maxSteps0 of None \<Rightarrow> 8 | Some n \<Rightarrow> n) 0
               \<lparr>cur_steps = [], cur_messages = msgs\<rparr> w of
         (Inl e, w') \<Rightarrow> (Inl e, w')
       | (Inr (Some res, st'), w') \<Rightarrow> (Inr res, w')
       | (Inr (None, st'), w') \<Rightarrow>
           (Inr \<lparr>steps = cur_steps st',
                 finalAnswer = fallback_answer (cur_steps st'),
                 totalSteps = (case maxSteps0 of None \<Rightarrow> 8 | Some n \<Rightarrow> n),
                 provider = lbl\<rparr>, w'))"
proof -
  from assms obtain k ks where av: "getAvailableProviders env = k # ks"
    by (cases "getAvailableProviders env") auto
  from available_provider [OF av] obtain cfg m ms
    where "map_of PROVIDERS k = Some cfg" "models cfg = m # ms" by blast
  with av show ?thesis
    by (simp add: runAgent_def Let_def) blast
qed

lemma runAgent_cases:
  obtains (unconfigured) msg where "getAvailableProviders env = []"
      "runAgent env complete goal tools ctx maxSteps0 w = (Inl (NoProviderConfigured msg), w)"
  | (configured) k m s a lbl msgs where "getAvailableProviders env \<noteq> []"
      "runAgent env complete goal tools ctx maxSteps0 w =
        (case agent_loop (\<lambda>ms. complete k m s ms a 2048) tools lbl
                 (case maxSteps0 of None \<Rightarrow> 8 | Some n \<Rightarrow> n) 0
                 \<lparr>cur_steps = [], cur_messages = msgs\<rparr> w of
           (Inl e, w') \<Rightarrow> (Inl e, w')
         | (Inr (Some res, st'), w') \<Rightarrow> (Inr res, w')
         | (Inr (None, st'), w') \<Rightarrow>
             (Inr \<lparr>steps = cur_steps st',
                   finalAnswer = fallback_answer (cur_steps st'),
                   totalSteps = (case maxSteps0 of None \<Rightarrow> 8 | Some n \<Rightarrow> n),
                   provider = lbl\<rparr>, w'))"
  using runAgent_unconfigured [of env complete goal tools ctx maxSteps0 w]
    runAgent_configured [of env complete goal tools ctx maxSteps0 w]
  by (cases "getAvailableProviders env = []") blast+

lemma runAgent_bound:
  assumes "runAgent env complete goal tools ctx maxSteps0 w = (Inr res, w')"
  shows "totalSteps res \<le> (case maxSteps0 of None \<Rightarrow> 8 | Some n \<Rightarrow> n)"
proof (cases rule: runAgent_cases [of env complete goal tools ctx maxSteps0 w])
  case (unconfigured msg)
  with assms show ?thesis by simp
next
  case (configured k m s a lbl msgs)
  let ?B = "case maxSteps0 of None \<Rightarrow> 8 | Some n \<Rightarrow> n"
  obtain x w2 where loop: "agent_loop (\<lambda>ms. complete k m s ms a 2048) tools lbl ?B 0
        \<lparr>cur_steps = [], cur_messages = msgs\<rparr> w = (x, w2)"
    by (cases "agent_loop (\<lambda>ms. complete k m s ms a 2048) tools lbl ?B 0
        \<lparr>cur_steps = [], cur_messages = msgs\<rparr> w")
  with configured(2) assms obtain r st' where x: "x = Inr (r, st')" by (cases x) auto
  show ?thesis
  proof (cases r)
    case None
    with configured(2) loop x assms show ?thesis by auto
  next
    case (Some res0)
    with loop x have "agent_loop (\<lambda>ms. complete k m s ms a 2048) tools lbl ?B 0
        \<lparr>cur_steps = [], cur_messages = msgs\<rparr> w = (Inr (Some res0, st'), w2)" by simp
    then have "totalSteps res0 \<le> ?B" by (rule agent_loop_bound [THEN conjunct2])
    with configured(2) loop x Some assms show ?thesis by auto
  qed
qed

lemma runAgent_returns:
  assumes conf: "getAvailableProviders env \<noteq> []"
    and ok: "\<forall>k m s ms a n w0. \<exists>t w1. complete k m s ms a n w0 = (Inr t, w1)"
  shows "\<exists>res w'. runAgent env complete goal tools ctx maxSteps0 w = (Inr res, w')"
proof (cases rule: runAgent_cases [of env complete goal tools ctx maxSteps0 w])
  case (unconfigured msg)
  with conf show ?thesis by simp
next
  case (configured k m s a lbl msgs)
  let ?B = "case maxSteps0 of None \<Rightarrow> 8 | Some n \<Rightarrow> n"
  have "\<exists>r st' w'. agent_loop (\<lambda>ms. complete k m s ms a 2048) tools lbl ?B 0
        \<lparr>cur_steps = [], cur_messages = msgs\<rparr> w = (Inr (r, st'), w')"
    by (rule agent_loop_never_fails) (use ok in simp)
  then obtain r st' w' where
    "agent_loop (\<lambda>ms. complete k m s ms a 2048) tools lbl ?B 0
        \<lparr>cur_steps = [], cur_messages = msgs\<rparr> w = (Inr (r, st'), w')" by blast
  with configured(2) show ?thesis by (cases r) simp_all
qed

section \<open>Sample runs\<close>

lemma sample_env_available: "getAvailableProviders sample_env = [js ''openai'']"
  by (simp add: getAvailableProviders_def sample_env_def PROVIDERS_def truthy_def js_def)

lemmas engine_eval =
  runAgent_def sample_env_available PROVIDERS_def getApiKey_def agent_loop.simps loop_body_def
  fallback_answer_def truthy_def or_empty_def Let_def

lemma parse_boom:
  "parseAgentResponse msg_action_boom =
     \<lparr>p_thought = [], p_action = Some (js ''boom''), p_actionInput = None, p_finalAnswer = None\<rparr>"
  by (simp add: msg_action_boom_def parser_eval)

lemma run_boom:
  "runAgent sample_env (steady_provider msg_action_boom) (js ''g'')
      [sample_tool (js ''boom'') (Inl (js ''kaput''))] None (Some 2) 0 =
    (Inr \<lparr>steps =
            [\<lparr>thought = [], action = js ''boom'', actionInput = [],
              observation = js ''Tool error: kaput''\<rparr>,
             \<lparr>thought = [], action = js ''boom'', actionInput = [],
              observation = js ''Tool error: kaput''\<rparr>],
          finalAnswer = js ''Agent completed 2 steps. Tools used: boom.'',
          totalSteps = 2,
          provider = js ''GPT-4o Mini (OpenAI)''\<rparr>, 2)"
  by (simp add: engine_eval steady_provider_def parse_boom sample_tool_def js_def)

lemma parse_no_markers:
  "parseAgentResponse msg_no_markers =
     \<lparr>p_thought = [], p_action = None, p_actionInput = None, p_finalAnswer = None\<rparr>"
  by (simp add: msg_no_markers_def parser_eval)

lemma run_no_markers:
  "runAgent sample_env (steady_provider msg_no_markers) (js ''g'') [] None (Some 3) 0 =
    (Inr \<lparr>steps = [],
          finalAnswer = js ''Agent reached maximum steps without executing tools.'',
          totalSteps = 3,
          provider = js ''GPT-4o Mini (OpenAI)''\<rparr>, 0)"
  by (simp add: engine_eval steady_provider_def parse_no_markers js_def)

lemma parse_frobnicate:
  "parseAgentResponse msg_frobnicate =
     \<lparr>p_thought = js ''ok'', p_action = Some (js ''frobnicate''), p_actionInput = None,
      p_finalAnswer = None\<rparr>"
  by (simp add: msg_frobnicate_def parser_eval)

lemma parse_thought_final:
  "parseAgentResponse msg_thought_final =
     \<lparr>p_thought = js ''done'', p_action = None, p_actionInput = None,
      p_finalAnswer = Some (js ''done'')\<rparr>"
  by (simp add: msg_thought_final_def parser_eval)

lemma parse_list_models:
  "parseAgentResponse msg_list_models =
     \<lparr>p_thought = js ''ok'', p_action = Some (js ''list_available_models''), p_actionInput = None,
      p_finalAnswer = None\<rparr>"
  by (simp add: msg_list_models_def parser_eval)

text \<open>The first scenario of the specification: one tool call, then the final answer.\<close>

lemma run_list_models:
  "runAgent sample_env (scripted_provider [msg_list_models, msg_thought_final]) (js ''List models'')
      [sample_tool (js ''list_available_models'') (Inr (js ''{}''))] None None 0 =
    (Inr \<lparr>steps =
            [\<lparr>thought = js ''ok'', action = js ''list_available_models'', actionInput = [],
              observation = js ''{}''\<rparr>],
          finalAnswer = js ''done'',
          totalSteps = 2,
          provider = js ''GPT-4o Mini (OpenAI)''\<rparr>, 1)"
  by (simp add: engine_eval scripted_provider_def scripted_def parse_list_models parse_thought_final
      sample_tool_def js_def)

section \<open>Scanned actions\<close>

lemma parse_action_blank_final:
  "parseAgentResponse msg_action_blank_final =
     \<lparr>p_thought = [], p_action = Some (js ''foo''), p_actionInput = None, p_finalAnswer = None\<rparr>"
  by (simp add: msg_action_blank_final_def parser_eval)

lemma parse_blank_final_only:
  "parseAgentResponse msg_blank_final_only =
     \<lparr>p_thought = [], p_action = None, p_actionInput = None, p_finalAnswer = None\<rparr>"
  by (simp add: msg_blank_final_only_def parser_eval)

lemma scanned_action_parsed:
  assumes lines: "split_on NL s = pre @ l # post"
    and l: "is_action_line l"
    and pre: "\<forall>x\<in>set pre. \<not> is_final_line x"
    and post: "\<forall>x\<in>set (takeWhile (\<lambda>x. \<not> is_final_line x) post). \<not> is_action_line x"
  shows "p_action (parseAgentResponse s) = or_undefined (trim (slice_from (trim l) 7))"
proof -
  from parse_reach [OF pre, of s "l # post" init_vars] obtain v1
    where "parse_lines s (split_on NL s) init_vars = parse_lines s (l # post) v1"
    using lines by auto
  then have "parse_lines s (split_on NL s) init_vars =
      parse_lines s post (v1\<lparr>v_action := trim (slice_from (trim l) 7)\<rparr>)"
    by (simp add: parse_action [OF l])
  with action_kept [OF post]
  have "v_action (parse_lines s (split_on NL s) init_vars) = trim (slice_from (trim l) 7)"
    by simp
  then show ?thesis by (simp add: parse_fields)
qed

lemma no_final_line_before_action:
  assumes lines: "split_on NL s = pre @ l # post"
    and l: "is_action_line l"
    and nf: "\<not> truthy (p_finalAnswer (parseAgentResponse s))"
  shows "\<forall>x\<in>set pre. \<not> is_final_line x"
proof (rule ccontr)
  assume "\<not> (\<forall>x\<in>set pre. \<not> is_final_line x)"
  then have "\<exists>x\<in>set pre. is_final_line x" by blast
  then obtain p1 f p2 where pre: "pre = p1 @ f # p2" and f: "is_final_line f"
    using split_list_first_prop [of pre is_final_line] by blast
  then have lines': "split_on NL s = p1 @ f # (p2 @ l # post)" using lines by simp
  then have "f \<in> set (split_on NL s)" by simp
  from parsed_final_line [OF this f] nf have "after_marker s = []" by simp
  from blank_after_final [OF lines' f this] have "list_all is_ws l" by simp
  with action_line_not_blank [OF l] show False by simp
qed

lemma single_tool_world:
  assumes ask: "ask (cur_messages st) w = (Inr t, w1)"
    and act: "\<not> truthy (p_finalAnswer (parseAgentResponse t)) \<Longrightarrow>
              p_action (parseAgentResponse t) = or_undefined a"
  shows "(\<forall>th b inp. directive_of t = ToolCall th b inp \<longrightarrow> b = a) \<and>
         (\<exists>r. loop_body ask tools lbl i st w =
            (Inr r,
             if truthy (p_finalAnswer (parseAgentResponse t)) \<or> a = [] then w1
             else (case find (\<lambda>x. name x = a) tools of
                     None \<Rightarrow> w1
                   | Some tool \<Rightarrow>
                       snd (execute tool (or_empty (p_actionInput (parseAgentResponse t))) w1))))"
proof (cases "truthy (p_finalAnswer (parseAgentResponse t))")
  case True
  with loop_body_final [where ask = ask, OF ask True, of tools lbl i] show ?thesis
    by (simp add: directive_of_def Let_def)
next
  case nf: False
  from act [OF nf] have pa: "p_action (parseAgentResponse t) = or_undefined a" .
  show ?thesis
  proof (cases "a = []")
    case True
    with pa have "\<not> truthy (p_action (parseAgentResponse t))" by simp
    from loop_body_nudge [where ask = ask, OF ask nf this, of tools lbl i] nf pa True
    show ?thesis by (simp add: directive_of_def Let_def)
  next
    case ne: False
    with pa have tr: "truthy (p_action (parseAgentResponse t))"
      and a: "or_empty (p_action (parseAgentResponse t)) = a" by simp_all
    show ?thesis
    proof (cases "find (\<lambda>x. name x = a) tools")
      case None
      with a have "find (\<lambda>x. name x = or_empty (p_action (parseAgentResponse t))) tools = None"
        by simp
      from loop_body_unknown [where ask = ask, OF ask nf tr this refl, of lbl i] nf pa ne None a
      show ?thesis by (simp add: directive_of_def Let_def)
    next
      case (Some tool)
      with a have f: "find (\<lambda>x. name x = or_empty (p_action (parseAgentResponse t))) tools = Some tool"
        by simp
      obtain out w2 where ex: "execute tool (or_empty (p_actionInput (parseAgentResponse t))) w1 = (out, w2)"
        by (cases "execute tool (or_empty (p_actionInput (parseAgentResponse t))) w1")
      from loop_body_tool [where ask = ask, OF ask nf tr f ex refl, of lbl i] nf pa ne Some ex a
      show ?thesis by (simp add: directive_of_def Let_def)
    qed
  qed
qed

section \<open>Runs that complete their budget\<close>

lemma unat_digit: "k < 10 \<Longrightarrow> unat (48 + of_nat k :: 16 word) = 48 + k"
proof -
  assume k: "k < 10"
  have "unat (of_nat (48 + k) :: 16 word) = (48 + k) mod 2 ^ LENGTH(16)"
    by (rule unat_of_nat)
  with k show ?thesis by simp
qed

lemma digits_value_show_nat: "digits_value (show_nat n) = n"
proof (induction n rule: show_nat.induct)
  case (1 n)
  show ?case
  proof (cases "n < 10")
    case True
    then show ?thesis by (subst show_nat.simps) (simp add: digits_value_def unat_digit)
  next
    case False
    with "1.IH" have "digits_value (show_nat (n div 10)) = n div 10" by simp
    with False show ?thesis
      by (subst show_nat.simps) (simp add: digits_value_def unat_digit)
  qed
qed

lemma show_nat_digits: "list_all (\<lambda>d. 48 \<le> unat d \<and> unat d \<le> 57) (show_nat n)"
proof (induction n rule: show_nat.induct)
  case (1 n)
  show ?case
  proof (cases "n < 10")
    case True
    then show ?thesis by (subst show_nat.simps) (simp add: unat_digit)
  next
    case False
    with "1.IH" have "list_all (\<lambda>d. 48 \<le> unat d \<and> unat d \<le> 57) (show_nat (n div 10))" by simp
    moreover have "unat (48 + of_nat (n mod 10) :: 16 word) = 48 + n mod 10"
      by (rule unat_digit) simp
    ultimately show ?thesis using False
      by (subst show_nat.simps) simp
  qed
qed

lemma directive_final_iff:
  "(\<exists>th ans. directive_of t = FinalAnswer th ans) \<longleftrightarrow> truthy (p_finalAnswer (parseAgentResponse t))"
  by (simp add: directive_of_def Let_def)

lemma no_final_answer_run_done:
  "\<not> i < maxSteps \<Longrightarrow> no_final_answer_run ask tools lbl maxSteps i st w"
  by (subst no_final_answer_run.simps) simp

lemma no_final_answer_run_step:
  assumes "i < maxSteps" "ask (cur_messages st) w = (Inr t, w1)"
    "\<not> truthy (p_finalAnswer (parseAgentResponse t))"
    "loop_body ask tools lbl i st w = (Inr (None, st1), w2)"
  shows "no_final_answer_run ask tools lbl maxSteps i st w \<longleftrightarrow>
         no_final_answer_run ask tools lbl maxSteps (i + 1) st1 w2"
  using assms
  by (subst no_final_answer_run.simps) (simp add: directive_of_def Let_def)

lemma no_final_answer_run_final:
  assumes "i < maxSteps" "ask (cur_messages st) w = (Inr t, w1)"
    "truthy (p_finalAnswer (parseAgentResponse t))"
  shows "\<not> no_final_answer_run ask tools lbl maxSteps i st w"
  using assms
  by (subst no_final_answer_run.simps) (simp add: directive_of_def Let_def)

lemma no_final_answer_run_failure:
  assumes "i < maxSteps" "ask (cur_messages st) w = (Inl m, w1)"
  shows "\<not> no_final_answer_run ask tools lbl maxSteps i st w"
  using assms
  by (subst no_final_answer_run.simps) simp

lemma falls_through_iff:
  "no_final_answer_run ask tools lbl maxSteps i st w \<longleftrightarrow>
   (\<exists>st' w'. agent_loop ask tools lbl maxSteps i st w = (Inr (None, st'), w') \<and>
      length (cur_messages st') = length (cur_messages st) + 2 * nat (maxSteps - i))"
  by (rule agent_loop_cases [where P = "\<lambda>i st w x.
        no_final_answer_run ask tools lbl maxSteps i st w \<longleftrightarrow>
        (\<exists>st' w'. x = (Inr (None, st'), w') \<and>
           length (cur_messages st') = length (cur_messages st) + 2 * nat (maxSteps - i))"])
    (auto simp: no_final_answer_run_done no_final_answer_run_failure no_final_answer_run_final
       no_final_answer_run_step nat_diff_distrib)

lemma runAgent_setup:
  assumes "run_setup env complete goal tools ctx = Some (ask, lbl, st0)"
  shows "runAgent env complete goal tools ctx maxSteps0 w =
      (case agent_loop ask tools lbl (case maxSteps0 of None \<Rightarrow> 8 | Some n \<Rightarrow> n) 0 st0 w of
         (Inl e, w') \<Rightarrow> (Inl e, w')
       | (Inr (Some res, st'), w') \<Rightarrow> (Inr res, w')
       | (Inr (None, st'), w') \<Rightarrow>
           (Inr \<lparr>steps = cur_steps st',
                 finalAnswer = fallback_answer (cur_steps st'),
                 totalSteps = (case maxSteps0 of None \<Rightarrow> 8 | Some n \<Rightarrow> n),
                 provider = lbl\<rparr>, w'))"
  using assms
  by (auto simp: run_setup_def runAgent_def Let_def split: list.splits option.splits)

lemma run_setup_configured:
  assumes "getAvailableProviders env \<noteq> []"
  shows "\<exists>ask lbl st0. run_setup env complete goal tools ctx = Some (ask, lbl, st0)"
proof -
  from assms obtain k ks where av: "getAvailableProviders env = k # ks"
    by (cases "getAvailableProviders env") auto
  from available_provider [OF av] obtain cfg m ms
    where "map_of PROVIDERS k = Some cfg" "models cfg = m # ms" by blast
  with av show ?thesis by (simp add: run_setup_def)
qed

lemma run_setup_start:
  assumes "run_setup env complete goal tools ctx = Some (ask, lbl, st0)"
  shows "cur_steps st0 = [] \<and> length (cur_messages st0) = 1"
proof (cases "getAvailableProviders env")
  case Nil
  with assms show ?thesis by (simp add: run_setup_def)
next
  case (Cons k ks)
  from available_provider [OF Cons] obtain cfg m ms
    where "map_of PROVIDERS k = Some cfg" "models cfg = m # ms" by blast
  with Cons assms show ?thesis by (auto simp: run_setup_def)
qed

lemma parse_use_first:
  "parseAgentResponse msg_use_first =
     \<lparr>p_thought = [], p_action = Some (js ''first''), p_actionInput = None, p_finalAnswer = None\<rparr>"
  by (simp add: msg_use_first_def parser_eval)

lemma parse_use_second:
  "parseAgentResponse msg_use_second =
     \<lparr>p_thought = [], p_action = Some (js ''second''), p_actionInput = None, p_finalAnswer = None\<rparr>"
  by (simp add: msg_use_second_def parser_eval)

lemma sample_setup:
  "run_setup sample_env (scripted_provider sample_replies) (js ''g'') sample_tools None =
     Some (scripted sample_replies, js ''GPT-4o Mini (OpenAI)'', sample_start)"
  by (simp add: run_setup_def sample_env_available PROVIDERS_def truthy_def sample_start_def
      scripted_provider_def fun_eq_iff js_def)

lemma sample_run:
  "runAgent sample_env (scripted_provider sample_replies) (js ''g'') sample_tools None (Some 3) 0 =
    (Inr \<lparr>steps =
            [\<lparr>thought = [], action = js ''first'', actionInput = [], observation = js ''one''\<rparr>,
             \<lparr>thought = [], action = js ''second'', actionInput = [],
              observation = js ''Tool error: kaput''\<rparr>,
             \<lparr>thought = [], action = js ''first'', actionInput = [], observation = js ''one''\<rparr>],
          finalAnswer = js ''Agent completed 3 steps. Tools used: first, second.'',
          totalSteps = 3,
          provider = js ''GPT-4o Mini (OpenAI)''\<rparr>, 3)"
  by (simp add: engine_eval show_nat.simps scripted_provider_def scripted_def sample_replies_def
      sample_tools_def parse_use_first parse_use_second sample_tool_def js_def)

lemma sample_no_final:
  "no_final_answer_run (scripted sample_replies) sample_tools (js ''GPT-4o Mini (OpenAI)'') 3 0
     sample_start 0"
  by (simp add: no_final_answer_run.simps directive_of_def loop_body_def Let_def truthy_def or_empty_def
      scripted_def sample_replies_def sample_tools_def sample_start_def parse_use_first parse_use_second
      sample_tool_def js_def)

section \<open>Properties of the parser and the engine\<close>

text \<open>
  C1 (amended). Let a message contain an \<^verbatim>\<open>Action:\<close> line and a later line that,
  after trimming, begins with \<^verbatim>\<open>Final Answer:\<close>, and let the text after the first
  occurrence of the marker in the raw message be more than white space. Then the parser
  yields that text, trimmed, as the final answer, the message is read as a final answer
  and not as a tool call, and the loop returns the answer at once: the
  steps are the ones recorded before, the count is \<open>i + 1\<close>, and the world is the one the
  completion call left, so no tool was executed for the message. The counterexample
  shows the two ways the unamended claim fails: a blank answer after the marker, and a
  marker that does not begin its line; in both the action of the message is dispatched.
\<close>

theorem final_answer_priority:
  assumes "split_on NL text = pre @ a # mid @ f # post"
    and "is_action_line a"
    and "is_final_line f"
    and "first_occurrence text (js ''Final Answer:'') k"
    and "\<not> list_all is_ws (drop (k + 13) text)"
    and "ask (cur_messages st) w = (Inr text, w1)"
    and "i < maxSteps"
  shows "p_finalAnswer (parseAgentResponse text) = Some (trim (drop (k + 13) text)) \<and>
         directive_of text =
           FinalAnswer (p_thought (parseAgentResponse text)) (trim (drop (k + 13) text)) \<and>
         agent_loop ask tools lbl maxSteps i st w =
           (Inr (Some \<lparr>steps = cur_steps st,
                       finalAnswer = trim (drop (k + 13) text),
                       totalSteps = i + 1,
                       provider = lbl\<rparr>,
                 st\<lparr>cur_messages := cur_messages st @ [\<lparr>role = Assistant, content = text\<rparr>]\<rparr>), w1)"
proof -
  from assms(1) have "f \<in> set (split_on NL text)" by simp
  from parsed_final_line [OF this assms(3)] first_after_marker [OF assms(4)]
  have "p_finalAnswer (parseAgentResponse text) = or_undefined (trim (drop (k + 13) text))" by simp
  moreover from assms(5) have "trim (drop (k + 13) text) \<noteq> []" by (simp add: trim_Nil_iff)
  ultimately have fin: "p_finalAnswer (parseAgentResponse text) = Some (trim (drop (k + 13) text))"
    by (simp add: or_undefined_Some)
  then have tr: "truthy (p_finalAnswer (parseAgentResponse text))"
    using \<open>trim (drop (k + 13) text) \<noteq> []\<close> by (simp add: truthy_def)
  from loop_body_final [where ask = ask, OF assms(6) tr, of tools lbl i] fin
  have "loop_body ask tools lbl i st w =
           (Inr (Some \<lparr>steps = cur_steps st,
                       finalAnswer = trim (drop (k + 13) text),
                       totalSteps = i + 1,
                       provider = lbl\<rparr>,
                 st\<lparr>cur_messages := cur_messages st @ [\<lparr>role = Assistant, content = text\<rparr>]\<rparr>), w1)"
    by (simp add: or_empty_def)
  from agent_loop_return [OF assms(7) this] fin tr show ?thesis
    by (simp add: directive_of_def Let_def or_empty_def)
qed

theorem final_answer_priority_witness:
  "split_on NL msg_action_final = [] @ js ''Action: foo'' # [] @ js ''Final Answer: done'' # [] \<and>
   is_action_line (js ''Action: foo'') \<and>
   is_final_line (js ''Final Answer: done'') \<and>
   first_occurrence msg_action_final (js ''Final Answer:'') 12 \<and>
   \<not> list_all is_ws (drop (12 + 13) msg_action_final) \<and>
   scripted [msg_action_final] (cur_messages start_state) 0 = (Inr msg_action_final, 0) \<and>
   directive_of msg_action_final = FinalAnswer [] (js ''done'') \<and>
   agent_loop (scripted [msg_action_final]) [sample_tool (js ''foo'') (Inr (js ''ok''))] [] 8 0 start_state 0 =
     (Inr (Some \<lparr>steps = [], finalAnswer = js ''done'', totalSteps = 1, provider = []\<rparr>,
           start_state\<lparr>cur_messages := cur_messages start_state @
              [\<lparr>role = Assistant, content = msg_action_final\<rparr>]\<rparr>), 0)"
proof -
  have h1: "split_on NL msg_action_final = [] @ js ''Action: foo'' # [] @ js ''Final Answer: done'' # []"
    by (simp add: msg_action_final_def js_def NL_def)
  have h2: "is_action_line (js ''Action: foo'')"
    by (simp add: is_action_line_def string_eval)
  have h3: "is_final_line (js ''Final Answer: done'')"
    by (simp add: is_final_line_def string_eval)
  have h4: "first_occurrence msg_action_final (js ''Final Answer:'') 12"
    by (simp add: first_occurrence_iff msg_action_final_def string_eval)
  have h5: "\<not> list_all is_ws (drop (12 + 13) msg_action_final)"
    by (simp add: msg_action_final_def string_eval)
  have h6: "scripted [msg_action_final] (cur_messages start_state) 0 = (Inr msg_action_final, 0)"
    by (simp add: scripted_def start_state_def)
  have h7: "(0::int) < 8" by simp
  have a: "trim (drop (12 + 13) msg_action_final) = js ''done''"
    by (simp add: msg_action_final_def string_eval)
  have s: "cur_steps start_state = []" by (simp add: start_state_def)
  have th: "p_thought (parseAgentResponse msg_action_final) = []"
    by (simp add: msg_action_final_def parser_eval)
  note inst = final_answer_priority [where ask = "scripted [msg_action_final]", OF h1 h2 h3 h4 h5 h6 h7,
      of "[sample_tool (js ''foo'') (Inr (js ''ok''))]" "[]"]
  from inst have d: "directive_of msg_action_final = FinalAnswer [] (js ''done'')"
    unfolding a th by simp
  from inst
  have c: "agent_loop (scripted [msg_action_final]) [sample_tool (js ''foo'') (Inr (js ''ok''))] [] 8 0
        start_state 0 =
     (Inr (Some \<lparr>steps = [], finalAnswer = js ''done'', totalSteps = 1, provider = []\<rparr>,
           start_state\<lparr>cur_messages := cur_messages start_state @
              [\<lparr>role = Assistant, content = msg_action_final\<rparr>]\<rparr>), 0)"
    unfolding a s by simp
  from h1 h2 h3 h4 h5 h6 d c show ?thesis by (intro conjI)
qed

theorem blank_final_dispatches_counterexample:
  "split_on NL msg_action_empty_final = [js ''Action: foo'', js ''Final Answer:''] \<and>
   is_action_line (js ''Action: foo'') \<and>
   is_final_line (js ''Final Answer:'') \<and>
   p_finalAnswer (parseAgentResponse msg_action_empty_final) = None \<and>
   directive_of msg_action_empty_final = ToolCall [] (js ''foo'') [] \<and>
   first_occurrence msg_action_mid_final (js ''Final Answer:'') 15 \<and>
   p_finalAnswer (parseAgentResponse msg_action_mid_final) = None \<and>
   directive_of msg_action_mid_final = ToolCall [] (js ''foo'') [] \<and>
   loop_body (scripted [msg_action_empty_final]) [sample_tool (js ''foo'') (Inr (js ''ok''))] [] 0
       start_state 0 =
     (Inr (None,
        \<lparr>cur_steps = [\<lparr>thought = [], action = js ''foo'', actionInput = [], observation = js ''ok''\<rparr>],
         cur_messages = cur_messages start_state @
           [\<lparr>role = Assistant, content = msg_action_empty_final\<rparr>,
            \<lparr>role = User, content = js ''Observation: '' @ js ''ok'' @ [NL, NL] @ js ''Continue.''\<rparr>]\<rparr>), 1)"
proof -
  have p: "parseAgentResponse msg_action_empty_final =
      \<lparr>p_thought = [], p_action = Some (js ''foo''), p_actionInput = None, p_finalAnswer = None\<rparr>"
    by (simp add: msg_action_empty_final_def parser_eval)
  have "scripted [msg_action_empty_final] (cur_messages start_state) 0 = (Inr msg_action_empty_final, 0)"
    by (simp add: scripted_def start_state_def)
  then have "loop_body (scripted [msg_action_empty_final]) [sample_tool (js ''foo'') (Inr (js ''ok''))] [] 0
       start_state 0 =
     (Inr (None,
        \<lparr>cur_steps = [\<lparr>thought = [], action = js ''foo'', actionInput = [], observation = js ''ok''\<rparr>],
         cur_messages = cur_messages start_state @
           [\<lparr>role = Assistant, content = msg_action_empty_final\<rparr>,
            \<lparr>role = User, content = js ''Observation: '' @ js ''ok'' @ [NL, NL] @ js ''Continue.''\<rparr>]\<rparr>), 1)"
    by (simp add: loop_body_def Let_def p truthy_def or_empty_def sample_tool_def start_state_def js_def)
  moreover have "split_on NL msg_action_empty_final = [js ''Action: foo'', js ''Final Answer:'']"
    by (simp add: msg_action_empty_final_def js_def NL_def)
  moreover have "is_action_line (js ''Action: foo'')" "is_final_line (js ''Final Answer:'')"
    by (simp_all add: is_action_line_def is_final_line_def string_eval)
  moreover have "first_occurrence msg_action_mid_final (js ''Final Answer:'') 15"
    by (simp add: first_occurrence_iff msg_action_mid_final_def string_eval)
  moreover have "p_finalAnswer (parseAgentResponse msg_action_mid_final) = None"
    "directive_of msg_action_mid_final = ToolCall [] (js ''foo'') []"
    by (simp_all add: msg_action_mid_final_def directive_of_def parser_eval)
  moreover have "directive_of msg_action_empty_final = ToolCall [] (js ''foo'') []"
    by (simp add: directive_of_def Let_def p truthy_def or_empty_def js_def)
  ultimately show ?thesis using p by simp
qed

text \<open>
  C2. Whatever the tools do, a result that \<^verbatim>\<open>runAgent\<close> returns has
  \<open>totalSteps\<close> at most the step budget, and \<^verbatim>\<open>runAgent\<close> does return a result when
  a provider is configured and no completion call throws: a tool that throws cannot make
  the run reject. In the iteration where the tool throws \<open>e\<close>, the loop records a step
  whose observation is \<^verbatim>\<open>Tool error: \<close> followed by \<open>e\<close>, appends it to the transcript and
  goes on with the next index.
\<close>

theorem tool_failure_recovered:
  "(runAgent env complete goal tools ctx maxSteps0 w = (Inr res, w') \<longrightarrow>
      totalSteps res \<le> (case maxSteps0 of None \<Rightarrow> 8 | Some n \<Rightarrow> n)) \<and>
   (getAvailableProviders env \<noteq> [] \<longrightarrow>
    (\<forall>k m s ms a n w0. \<exists>t w1. complete k m s ms a n w0 = (Inr t, w1)) \<longrightarrow>
    (\<exists>res w'. runAgent env complete goal tools ctx maxSteps0 w = (Inr res, w'))) \<and>
   (i < maxSteps \<longrightarrow> ask (cur_messages st) w = (Inr t, w1) \<longrightarrow>
    \<not> truthy (p_finalAnswer (parseAgentResponse t)) \<longrightarrow>
    truthy (p_action (parseAgentResponse t)) \<longrightarrow>
    find (\<lambda>x. name x = or_empty (p_action (parseAgentResponse t))) tools = Some tool \<longrightarrow>
    execute tool (or_empty (p_actionInput (parseAgentResponse t))) w1 = (Inl e, w2) \<longrightarrow>
    agent_loop ask tools lbl maxSteps i st w =
      agent_loop ask tools lbl maxSteps (i + 1)
        \<lparr>cur_steps = cur_steps st @
           [\<lparr>thought = p_thought (parseAgentResponse t),
             action = or_empty (p_action (parseAgentResponse t)),
             actionInput = or_empty (p_actionInput (parseAgentResponse t)),
             observation = js ''Tool error: '' @ e\<rparr>],
         cur_messages = cur_messages st @
           [\<lparr>role = Assistant, content = t\<rparr>,
            \<lparr>role = User,
             content = js ''Observation: '' @ (js ''Tool error: '' @ e) @ [NL, NL] @ js ''Continue.''\<rparr>]\<rparr>
        w2)"
proof (intro conjI impI)
  assume "runAgent env complete goal tools ctx maxSteps0 w = (Inr res, w')"
  then show "totalSteps res \<le> (case maxSteps0 of None \<Rightarrow> 8 | Some n \<Rightarrow> n)"
    by (rule runAgent_bound)
next
  assume "getAvailableProviders env \<noteq> []"
    and "\<forall>k m s ms a n w0. \<exists>t w1. complete k m s ms a n w0 = (Inr t, w1)"
  then show "\<exists>res w'. runAgent env complete goal tools ctx maxSteps0 w = (Inr res, w')"
    by (rule runAgent_returns)
next
  assume lt: "i < maxSteps" and a: "ask (cur_messages st) w = (Inr t, w1)"
    and nf: "\<not> truthy (p_finalAnswer (parseAgentResponse t))"
    and tr: "truthy (p_action (parseAgentResponse t))"
    and f: "find (\<lambda>x. name x = or_empty (p_action (parseAgentResponse t))) tools = Some tool"
    and ex: "execute tool (or_empty (p_actionInput (parseAgentResponse t))) w1 = (Inl e, w2)"
  from loop_body_tool [where ask = ask, OF a nf tr f ex refl, of lbl i]
  show "agent_loop ask tools lbl maxSteps i st w =
      agent_loop ask tools lbl maxSteps (i + 1)
        \<lparr>cur_steps = cur_steps st @
           [\<lparr>thought = p_thought (parseAgentResponse t),
             action = or_empty (p_action (parseAgentResponse t)),
             actionInput = or_empty (p_actionInput (parseAgentResponse t)),
             observation = js ''Tool error: '' @ e\<rparr>],
         cur_messages = cur_messages st @
           [\<lparr>role = Assistant, content = t\<rparr>,
            \<lparr>role = User,
             content = js ''Observation: '' @ (js ''Tool error: '' @ e) @ [NL, NL] @ js ''Continue.''\<rparr>]\<rparr>
        w2"
    by (simp add: agent_loop_continue [OF lt])
qed

theorem tool_failure_recovered_witness:
  "getAvailableProviders sample_env \<noteq> [] \<and>
   runAgent sample_env (steady_provider msg_action_boom) (js ''g'')
      [sample_tool (js ''boom'') (Inl (js ''kaput''))] None (Some 2) 0 =
    (Inr \<lparr>steps =
            [\<lparr>thought = [], action = js ''boom'', actionInput = [],
              observation = js ''Tool error: kaput''\<rparr>,
             \<lparr>thought = [], action = js ''boom'', actionInput = [],
              observation = js ''Tool error: kaput''\<rparr>],
          finalAnswer = js ''Agent completed 2 steps. Tools used: boom.'',
          totalSteps = 2,
          provider = js ''GPT-4o Mini (OpenAI)''\<rparr>, 2) \<and>
   (\<exists>res w'. runAgent sample_env (steady_provider msg_action_boom) (js ''g'')
      [sample_tool (js ''boom'') (Inl (js ''kaput''))] None (Some 2) 0 = (Inr res, w'))"
proof -
  have h1: "getAvailableProviders sample_env \<noteq> []" by (simp add: sample_env_available)
  have h2: "\<forall>k m s ms a n w0. \<exists>t w1. steady_provider msg_action_boom k m s ms a n w0 = (Inr t, w1)"
    by (simp add: steady_provider_def)
  from tool_failure_recovered [where env = sample_env and complete = "steady_provider msg_action_boom"
      and goal = "js ''g''" and tools = "[sample_tool (js ''boom'') (Inl (js ''kaput''))]"
      and ctx = None and ?maxSteps0.0 = "Some 2" and w = 0, THEN conjunct2, THEN conjunct1] h1 h2
  have c: "\<exists>res w'. runAgent sample_env (steady_provider msg_action_boom) (js ''g'')
      [sample_tool (js ''boom'') (Inl (js ''kaput''))] None (Some 2) 0 = (Inr res, w')" by simp
  from h1 run_boom c show ?thesis by (intro conjI)
qed

text \<open>
  C3. Let \<^verbatim>\<open>runAgent\<close> enter its loop, a provider being configured. The run completes
  its budget without a final answer exactly when the loop runs to its end. Every
  iteration has then pushed two messages, and the result has the steps of the loop,
  \<open>totalSteps\<close> equal to the budget, and as \<open>finalAnswer\<close> the synthesised summary: the
  number of steps, in decimal digits, and the distinct actions of the steps, each once,
  or the message that no tool was executed when there is no step. With a budget of \<open>0\<close>
  the run returns that message and no step at once, in the world it started from.
\<close>

theorem budget_exhaustion:
  assumes "run_setup env complete goal tools ctx = Some (ask, lbl, st0)"
  shows
   "(no_final_answer_run ask tools lbl (case maxSteps0 of None \<Rightarrow> 8 | Some n \<Rightarrow> n) 0 st0 w \<longleftrightarrow>
       (\<exists>st' w'. agent_loop ask tools lbl (case maxSteps0 of None \<Rightarrow> 8 | Some n \<Rightarrow> n) 0 st0 w =
                   (Inr (None, st'), w'))) \<and>
    (no_final_answer_run ask tools lbl (case maxSteps0 of None \<Rightarrow> 8 | Some n \<Rightarrow> n) 0 st0 w \<longrightarrow>
       (\<exists>st' w'.
          agent_loop ask tools lbl (case maxSteps0 of None \<Rightarrow> 8 | Some n \<Rightarrow> n) 0 st0 w =
            (Inr (None, st'), w') \<and>
          length (cur_messages st') =
            length (cur_messages st0) + 2 * nat (case maxSteps0 of None \<Rightarrow> 8 | Some n \<Rightarrow> n) \<and>
          runAgent env complete goal tools ctx maxSteps0 w =
            (Inr \<lparr>steps = cur_steps st',
                  finalAnswer =
                    (if length (cur_steps st') > 0 then
                       js ''Agent completed '' @ show_nat (length (cur_steps st')) @
                         js '' steps. Tools used: '' @
                         join (js '', '') (set_order (map action (cur_steps st'))) @ js ''.''
                     else js ''Agent reached maximum steps without executing tools.''),
                  totalSteps = (case maxSteps0 of None \<Rightarrow> 8 | Some n \<Rightarrow> n),
                  provider = lbl\<rparr>, w') \<and>
          list_all (\<lambda>d. 48 \<le> unat d \<and> unat d \<le> 57) (show_nat (length (cur_steps st'))) \<and>
          digits_value (show_nat (length (cur_steps st'))) = length (cur_steps st') \<and>
          distinct (set_order (map action (cur_steps st'))) \<and>
          set (set_order (map action (cur_steps st'))) = action ` set (cur_steps st'))) \<and>
    runAgent env complete goal tools ctx (Some 0) w =
      (Inr \<lparr>steps = [],
            finalAnswer = js ''Agent reached maximum steps without executing tools.'',
            totalSteps = 0,
            provider = lbl\<rparr>, w)"
  supply show_nat.simps [simp del]
proof (intro conjI impI)
  let ?B = "case maxSteps0 of None \<Rightarrow> 8 | Some n \<Rightarrow> n"
  show "no_final_answer_run ask tools lbl ?B 0 st0 w \<longleftrightarrow>
       (\<exists>st' w'. agent_loop ask tools lbl ?B 0 st0 w = (Inr (None, st'), w'))"
  proof
    assume "no_final_answer_run ask tools lbl ?B 0 st0 w"
    then show "\<exists>st' w'. agent_loop ask tools lbl ?B 0 st0 w = (Inr (None, st'), w')"
      by (auto simp: falls_through_iff)
  next
    assume "\<exists>st' w'. agent_loop ask tools lbl ?B 0 st0 w = (Inr (None, st'), w')"
    then obtain st' w' where loop: "agent_loop ask tools lbl ?B 0 st0 w = (Inr (None, st'), w')"
      by blast
    have "no_final_answer_run ask tools lbl ?B 0 st0 w \<or>
        (\<forall>st' w'. agent_loop ask tools lbl ?B 0 st0 w \<noteq> (Inr (None, st'), w'))"
    proof (rule agent_loop_cases [where P = "\<lambda>i st w x.
            no_final_answer_run ask tools lbl ?B i st w \<or>
            (\<forall>st' w'. x \<noteq> (Inr (None, st'), w'))"])
      fix i st w
      assume "\<not> i < ?B"
      then show "no_final_answer_run ask tools lbl ?B i st w \<or>
          (\<forall>st' w'. (Inr (None, st), w) \<noteq> (Inr (None, st'), w'))"
        by (simp add: no_final_answer_run_done)
    next
      fix i st w m w1
      show "no_final_answer_run ask tools lbl ?B i st w \<or>
          (\<forall>st' w'. (Inl (ProviderFailure m), w1) \<noteq> (Inr (None, st'), w'))"
        by simp
    next
      fix i st w t w1 and res :: AgentResult
      show "no_final_answer_run ask tools lbl ?B i st w \<or>
          (\<forall>st' w'. (Inr (Some res,
              st\<lparr>cur_messages := cur_messages st @ [\<lparr>role = Assistant, content = t\<rparr>]\<rparr>), w1) \<noteq>
            (Inr (None, st'), w'))"
        by simp
    next
      fix i st w t w1 u st1 w2
      assume lt: "i < ?B" and a: "ask (cur_messages st) w = (Inr t, w1)"
        and nf: "\<not> truthy (p_finalAnswer (parseAgentResponse t))"
        and body: "loop_body ask tools lbl i st w = (Inr (None, st1), w2)"
        and ih: "no_final_answer_run ask tools lbl ?B (i + 1) st1 w2 \<or>
          (\<forall>st' w'. agent_loop ask tools lbl ?B (i + 1) st1 w2 \<noteq> (Inr (None, st'), w'))"
      from no_final_answer_run_step [where ask = ask, OF lt a nf body] ih
      show "no_final_answer_run ask tools lbl ?B i st w \<or>
          (\<forall>st' w'. agent_loop ask tools lbl ?B (i + 1) st1 w2 \<noteq> (Inr (None, st'), w'))"
        by blast
    qed
    with loop show "no_final_answer_run ask tools lbl ?B 0 st0 w" by blast
  qed
next
  let ?B = "case maxSteps0 of None \<Rightarrow> 8 | Some n \<Rightarrow> n"
  assume "no_final_answer_run ask tools lbl ?B 0 st0 w"
  then obtain st' w' where loop: "agent_loop ask tools lbl ?B 0 st0 w = (Inr (None, st'), w')"
    and len: "length (cur_messages st') = length (cur_messages st0) + 2 * nat ?B"
    by (auto simp: falls_through_iff)
  from runAgent_setup [OF assms, of maxSteps0 w] loop
  have "runAgent env complete goal tools ctx maxSteps0 w =
            (Inr \<lparr>steps = cur_steps st',
                  finalAnswer =
                    (if length (cur_steps st') > 0 then
                       js ''Agent completed '' @ show_nat (length (cur_steps st')) @
                         js '' steps. Tools used: '' @
                         join (js '', '') (set_order (map action (cur_steps st'))) @ js ''.''
                     else js ''Agent reached maximum steps without executing tools.''),
                  totalSteps = ?B,
                  provider = lbl\<rparr>, w')"
    by (simp add: fallback_answer_def)
  with loop len show "\<exists>st' w'.
          agent_loop ask tools lbl ?B 0 st0 w = (Inr (None, st'), w') \<and>
          length (cur_messages st') = length (cur_messages st0) + 2 * nat ?B \<and>
          runAgent env complete goal tools ctx maxSteps0 w =
            (Inr \<lparr>steps = cur_steps st',
                  finalAnswer =
                    (if length (cur_steps st') > 0 then
                       js ''Agent completed '' @ show_nat (length (cur_steps st')) @
                         js '' steps. Tools used: '' @
                         join (js '', '') (set_order (map action (cur_steps st'))) @ js ''.''
                     else js ''Agent reached maximum steps without executing tools.''),
                  totalSteps = ?B,
                  provider = lbl\<rparr>, w') \<and>
          list_all (\<lambda>d. 48 \<le> unat d \<and> unat d \<le> 57) (show_nat (length (cur_steps st'))) \<and>
          digits_value (show_nat (length (cur_steps st'))) = length (cur_steps st') \<and>
          distinct (set_order (map action (cur_steps st'))) \<and>
          set (set_order (map action (cur_steps st'))) = action ` set (cur_steps st')"
    by (intro exI [of _ st'] exI [of _ w']) (simp add: digits_value_show_nat show_nat_digits)
next
  from run_setup_start [OF assms] have "cur_steps st0 = []" by simp
  with runAgent_setup [OF assms, of "Some 0" w]
  show "runAgent env complete goal tools ctx (Some 0) w =
      (Inr \<lparr>steps = [],
            finalAnswer = js ''Agent reached maximum steps without executing tools.'',
            totalSteps = 0,
            provider = lbl\<rparr>, w)"
    by (simp add: agent_loop_done fallback_answer_def)
qed

theorem budget_exhaustion_witness:
  "run_setup sample_env (scripted_provider sample_replies) (js ''g'') sample_tools None =
     Some (scripted sample_replies, js ''GPT-4o Mini (OpenAI)'', sample_start) \<and>
   no_final_answer_run (scripted sample_replies) sample_tools (js ''GPT-4o Mini (OpenAI)'') 3 0
     sample_start 0 \<and>
   directive_of msg_thought_final = FinalAnswer (js ''done'') (js ''done'') \<and>
   runAgent sample_env (scripted_provider sample_replies) (js ''g'') sample_tools None (Some 3) 0 =
    (Inr \<lparr>steps =
            [\<lparr>thought = [], action = js ''first'', actionInput = [], observation = js ''one''\<rparr>,
             \<lparr>thought = [], action = js ''second'', actionInput = [],
              observation = js ''Tool error: kaput''\<rparr>,
             \<lparr>thought = [], action = js ''first'', actionInput = [], observation = js ''one''\<rparr>],
          finalAnswer = js ''Agent completed 3 steps. Tools used: first, second.'',
          totalSteps = 3,
          provider = js ''GPT-4o Mini (OpenAI)''\<rparr>, 3) \<and>
   show_nat 3 = js ''3'' \<and>
   set_order [js ''first'', js ''second'', js ''first''] = [js ''first'', js ''second''] \<and>
   (\<exists>st' w'. agent_loop (scripted sample_replies) sample_tools (js ''GPT-4o Mini (OpenAI)'') 3 0
        sample_start 0 = (Inr (None, st'), w') \<and>
      length (cur_messages st') = length (cur_messages sample_start) + 2 * nat 3 \<and>
      length (cur_steps st') = 3) \<and>
   runAgent sample_env (scripted_provider sample_replies) (js ''g'') sample_tools None (Some 0) 0 =
    (Inr \<lparr>steps = [],
          finalAnswer = js ''Agent reached maximum steps without executing tools.'',
          totalSteps = 0,
          provider = js ''GPT-4o Mini (OpenAI)''\<rparr>, 0)"
  supply show_nat.simps [simp del]
proof -
  note inst = budget_exhaustion [OF sample_setup]
  have d: "directive_of msg_thought_final = FinalAnswer (js ''done'') (js ''done'')"
    by (simp add: directive_of_def Let_def parse_thought_final truthy_def or_empty_def js_def)
  have s3: "show_nat 3 = js ''3''" by (simp add: show_nat.simps js_def)
  have so: "set_order [js ''first'', js ''second'', js ''first''] = [js ''first'', js ''second'']"
    by (simp add: js_def)
  from inst [of "Some 3" 0, THEN conjunct2, THEN conjunct1] sample_no_final
  obtain st' w' where loop: "agent_loop (scripted sample_replies) sample_tools
        (js ''GPT-4o Mini (OpenAI)'') 3 0 sample_start 0 = (Inr (None, st'), w')"
    and len: "length (cur_messages st') = length (cur_messages sample_start) + 2 * nat 3"
    and run: "runAgent sample_env (scripted_provider sample_replies) (js ''g'') sample_tools None
        (Some 3) 0 =
            (Inr \<lparr>steps = cur_steps st',
                  finalAnswer =
                    (if length (cur_steps st') > 0 then
                       js ''Agent completed '' @ show_nat (length (cur_steps st')) @
                         js '' steps. Tools used: '' @
                         join (js '', '') (set_order (map action (cur_steps st'))) @ js ''.''
                     else js ''Agent reached maximum steps without executing tools.''),
                  totalSteps = 3,
                  provider = js ''GPT-4o Mini (OpenAI)''\<rparr>, w')"
    by auto
  from run sample_run have "cur_steps st' =
            [\<lparr>thought = [], action = js ''first'', actionInput = [], observation = js ''one''\<rparr>,
             \<lparr>thought = [], action = js ''second'', actionInput = [],
              observation = js ''Tool error: kaput''\<rparr>,
             \<lparr>thought = [], action = js ''first'', actionInput = [], observation = js ''one''\<rparr>]"
    by simp
  hence "length (cur_steps st') = 3" by simp
  with loop len have c: "\<exists>st' w'. agent_loop (scripted sample_replies) sample_tools
        (js ''GPT-4o Mini (OpenAI)'') 3 0 sample_start 0 = (Inr (None, st'), w') \<and>
      length (cur_messages st') = length (cur_messages sample_start) + 2 * nat 3 \<and>
      length (cur_steps st') = 3" by blast
  from inst [of "Some 3" 0, THEN conjunct2, THEN conjunct2]
  have z: "runAgent sample_env (scripted_provider sample_replies) (js ''g'') sample_tools None (Some 0) 0 =
    (Inr \<lparr>steps = [],
          finalAnswer = js ''Agent reached maximum steps without executing tools.'',
          totalSteps = 0,
          provider = js ''GPT-4o Mini (OpenAI)''\<rparr>, 0)" .
  from sample_setup sample_no_final d sample_run s3 so c z show ?thesis by (intro conjI)
qed

text \<open>
  C4 (amended). When some line of the message, after trimming, begins with
  \<^verbatim>\<open>Final Answer:\<close>, the parser stops at the first such line \<open>f\<close>: thought, action
  and action input are those of the lines before \<open>f\<close>, and the final answer is the text
  after the first occurrence of the marker in the raw message, trimmed, or absent when
  that text is empty. The counterexample has the marker in the middle of a line, where
  the parser yields no final answer, and a marker followed by nothing.
\<close>

theorem final_answer_line:
  assumes "split_on NL text = pre @ f # post"
    and "is_final_line f"
    and "\<forall>x\<in>set pre. \<not> is_final_line x"
  shows "\<exists>k. first_occurrence text (js ''Final Answer:'') k \<and>
     parseAgentResponse text =
       \<lparr>p_thought = v_thought (parse_lines text pre init_vars),
        p_action = or_undefined (v_action (parse_lines text pre init_vars)),
        p_actionInput = or_undefined (v_actionInput (parse_lines text pre init_vars)),
        p_finalAnswer = or_undefined (trim (drop (k + 13) text))\<rparr>"
proof -
  from assms(1) have "f \<in> set (split_on NL text)" by simp
  from final_line_occurs [OF this assms(2)] have nn: "0 \<le> indexOf text (js ''Final Answer:'')" .
  let ?k = "nat (indexOf text (js ''Final Answer:''))"
  from first_indexOf [OF nn] have fo: "first_occurrence text (js ''Final Answer:'') ?k" .
  have "parseAgentResponse text =
       \<lparr>p_thought = v_thought (parse_lines text pre init_vars),
        p_action = or_undefined (v_action (parse_lines text pre init_vars)),
        p_actionInput = or_undefined (v_actionInput (parse_lines text pre init_vars)),
        p_finalAnswer = or_undefined (trim (drop (?k + 13) text))\<rparr>"
    using parsed_stops [OF assms] first_after_marker [OF fo]
    by (simp add: parseAgentResponse_def Let_def init_vars_def [symmetric])
  with fo show ?thesis by blast
qed

theorem final_answer_line_witness:
  "split_on NL msg_thought_final = [js ''Thought: done''] @ js ''Final Answer: done'' # [] \<and>
   is_final_line (js ''Final Answer: done'') \<and>
   \<not> is_final_line (js ''Thought: done'') \<and>
   (\<exists>k. first_occurrence msg_thought_final (js ''Final Answer:'') k \<and>
     parseAgentResponse msg_thought_final =
       \<lparr>p_thought = v_thought (parse_lines msg_thought_final [js ''Thought: done''] init_vars),
        p_action = or_undefined (v_action (parse_lines msg_thought_final [js ''Thought: done''] init_vars)),
        p_actionInput = or_undefined (v_actionInput (parse_lines msg_thought_final [js ''Thought: done''] init_vars)),
        p_finalAnswer = or_undefined (trim (drop (k + 13) msg_thought_final))\<rparr>)"
proof -
  have h1: "split_on NL msg_thought_final = [js ''Thought: done''] @ js ''Final Answer: done'' # []"
    by (simp add: msg_thought_final_def js_def NL_def)
  have h2: "is_final_line (js ''Final Answer: done'')"
    by (simp add: is_final_line_def string_eval)
  have h3: "\<forall>x\<in>set [js ''Thought: done'']. \<not> is_final_line x"
    by (simp add: is_final_line_def string_eval)
  from final_answer_line [OF h1 h2 h3] h1 h2 h3 show ?thesis by simp
qed

theorem final_answer_mid_line_counterexample:
  "first_occurrence msg_final_mid_line (js ''Final Answer:'') 4 \<and>
   p_finalAnswer (parseAgentResponse msg_final_mid_line) = None \<and>
   first_occurrence msg_action_empty_final (js ''Final Answer:'') 12 \<and>
   is_final_line (js ''Final Answer:'') \<and>
   p_finalAnswer (parseAgentResponse msg_action_empty_final) = None"
  by (simp add: first_occurrence_iff msg_final_mid_line_def msg_action_empty_final_def
      is_final_line_def parser_eval)

text \<open>
  C5 (amended). Let \<open>l\<close> be an \<^verbatim>\<open>Action Input:\<close> line that the scan reaches (no line
  before it begins with \<^verbatim>\<open>Final Answer:\<close>) and the last such line scanned (none
  follows before a \<^verbatim>\<open>Final Answer:\<close> line). The captured block is the trimmed rest
  of \<open>l\<close> and the following lines, verbatim, up to the first line that after trimming
  begins with \<^verbatim>\<open>Thought:\<close>, \<^verbatim>\<open>Action:\<close>, \<^verbatim>\<open>Final Answer:\<close> or
  \<^verbatim>\<open>Observation:\<close>, or to the end; joined with newlines and trimmed it is the action
  input. An empty block is returned as \<^verbatim>\<open>undefined\<close>, which the engine reads as the
  empty string. The counterexample has an \<^verbatim>\<open>Action Input:\<close> line after a
  \<^verbatim>\<open>Final Answer:\<close> line, which is never captured, two \<^verbatim>\<open>Action Input:\<close>
  lines, where the block of the first, which includes the second line, is overwritten,
  and a marker line that ends in white space, which the block does not keep.
\<close>

theorem action_input_capture:
  assumes "split_on NL text = pre @ l # post"
    and "is_input_line l"
    and "\<forall>x\<in>set pre. \<not> is_final_line x"
    and "\<forall>x\<in>set (takeWhile (\<lambda>x. \<not> is_final_line x) post). \<not> is_input_line x"
  shows "p_actionInput (parseAgentResponse text) =
           or_undefined (trim (join [NL]
             (trim (slice_from (trim l) 13) # takeWhile (\<lambda>x. \<not> stops_capture (trim x)) post))) \<and>
         or_empty (p_actionInput (parseAgentResponse text)) =
           trim (join [NL]
             (trim (slice_from (trim l) 13) # takeWhile (\<lambda>x. \<not> stops_capture (trim x)) post))"
proof -
  let ?block = "trim (join [NL]
     (trim (slice_from (trim l) 13) # takeWhile (\<lambda>x. \<not> stops_capture (trim x)) post))"
  from parse_reach [OF assms(3), of "text" "l # post" init_vars] obtain v1
    where "parse_lines text (split_on NL text) init_vars = parse_lines text (l # post) v1"
    using assms(1) by auto
  then have "parse_lines text (split_on NL text) init_vars =
      parse_lines text post (v1\<lparr>v_actionInput := ?block\<rparr>)"
    by (simp add: parse_input [OF assms(2)])
  then have "v_actionInput (parse_lines text (split_on NL text) init_vars) = ?block"
    by (simp add: input_kept [OF assms(4)])
  then show ?thesis by (simp add: parse_fields)
qed

theorem action_input_capture_witness:
  "split_on NL msg_input_block =
     [js ''Action: run''] @ js ''Action Input: a  '' # [js '' b'', js ''Thought: t''] \<and>
   is_input_line (js ''Action Input: a  '') \<and>
   \<not> is_final_line (js ''Action: run'') \<and>
   \<not> is_input_line (js '' b'') \<and> \<not> is_input_line (js ''Thought: t'') \<and>
   p_actionInput (parseAgentResponse msg_input_block) = Some (js ''a'' @ [NL] @ js '' b'')"
proof -
  have h1: "split_on NL msg_input_block =
     [js ''Action: run''] @ js ''Action Input: a  '' # [js '' b'', js ''Thought: t'']"
    by (simp add: msg_input_block_def js_def NL_def)
  have h2: "is_input_line (js ''Action Input: a  '')"
    by (simp add: is_input_line_def string_eval)
  have n1: "\<not> is_final_line (js ''Action: run'')"
    by (simp add: is_final_line_def string_eval)
  have n2: "\<not> is_input_line (js '' b'')" "\<not> is_input_line (js ''Thought: t'')"
    by (simp_all add: is_input_line_def string_eval)
  from n1 have h3: "\<forall>x\<in>set [js ''Action: run'']. \<not> is_final_line x" by simp
  from n2 have h4: "\<forall>x\<in>set (takeWhile (\<lambda>x. \<not> is_final_line x) [js '' b'', js ''Thought: t'']).
      \<not> is_input_line x" by (auto dest!: set_takeWhileD)
  have blk: "trim (join [NL] (trim (slice_from (trim (js ''Action Input: a  '')) 13) #
          takeWhile (\<lambda>x. \<not> stops_capture (trim x)) [js '' b'', js ''Thought: t''])) =
        js ''a'' @ [NL] @ js '' b''"
    by (simp add: stops_capture_def string_eval)
  have "js ''a'' @ [NL] @ js '' b'' \<noteq> []" by (simp add: js_def)
  with action_input_capture [OF h1 h2 h3 h4]
  have c: "p_actionInput (parseAgentResponse msg_input_block) = Some (js ''a'' @ [NL] @ js '' b'')"
    unfolding blk by (simp add: or_undefined_def)
  from h1 h2 n1 n2 c show ?thesis by (intro conjI)
qed

theorem action_input_after_final_counterexample:
  "js ''Action Input: y'' \<in> set (split_on NL msg_final_then_input) \<and>
   is_input_line (js ''Action Input: y'') \<and>
   trim (slice_from (trim (js ''Action Input: y'')) 13) = js ''y'' \<and>
   p_actionInput (parseAgentResponse msg_final_then_input) = None \<and>
   split_on NL msg_two_inputs = [js ''Action Input: a'', js ''Action Input: b''] \<and>
   is_input_line (js ''Action Input: a'') \<and>
   \<not> stops_capture (trim (js ''Action Input: b'')) \<and>
   p_actionInput (parseAgentResponse msg_two_inputs) = Some (js ''b'') \<and>
   split_on NL msg_input_block =
     [js ''Action: run'', js ''Action Input: a  '', js '' b'', js ''Thought: t''] \<and>
   trim (js '' a  '' @ [NL] @ js '' b'') = js ''a  '' @ [NL] @ js '' b'' \<and>
   p_actionInput (parseAgentResponse msg_input_block) = Some (js ''a'' @ [NL] @ js '' b'') \<and>
   js ''a'' @ [NL] @ js '' b'' \<noteq> js ''a  '' @ [NL] @ js '' b''"
  by (simp add: msg_final_then_input_def msg_two_inputs_def msg_input_block_def is_input_line_def
      parser_eval)

text \<open>
  C6. When the parsed action \<open>a\<close> of a reply without final answer names no tool of the
  registry, the loop records a step for \<open>a\<close> whose observation is
  \<^verbatim>\<open>Unknown tool: \<close>\<open>a\<close>\<^verbatim>\<open>. Available: \<close> and the names of the tools, appends the
  observation to the transcript, executes no tool, and goes on with the next index.
\<close>

theorem unknown_tool_reported:
  assumes "ask (cur_messages st) w = (Inr t, w1)"
    and "\<not> truthy (p_finalAnswer (parseAgentResponse t))"
    and "p_action (parseAgentResponse t) = Some a"
    and "\<forall>x\<in>set tools. name x \<noteq> a"
    and "i < maxSteps"
  shows "agent_loop ask tools lbl maxSteps i st w =
      agent_loop ask tools lbl maxSteps (i + 1)
        \<lparr>cur_steps = cur_steps st @
           [\<lparr>thought = p_thought (parseAgentResponse t),
             action = a,
             actionInput = or_empty (p_actionInput (parseAgentResponse t)),
             observation =
               js ''Unknown tool: '' @ a @ js ''. Available: '' @ join (js '', '') (map name tools)\<rparr>],
         cur_messages = cur_messages st @
           [\<lparr>role = Assistant, content = t\<rparr>,
            \<lparr>role = User,
             content = js ''Observation: '' @
               (js ''Unknown tool: '' @ a @ js ''. Available: '' @ join (js '', '') (map name tools)) @
               [NL, NL] @ js ''Continue.''\<rparr>]\<rparr>
        w1"
proof -
  from assms(3) have ne: "a \<noteq> []" by (rule parsed_action_nonempty)
  with assms(3) have tr: "truthy (p_action (parseAgentResponse t))"
    and a: "or_empty (p_action (parseAgentResponse t)) = a"
    by (simp_all add: truthy_def or_empty_def)
  from assms(4) have "find (\<lambda>x. name x = a) tools = None" by (simp add: find_None_iff)
  with a have f: "find (\<lambda>x. name x = or_empty (p_action (parseAgentResponse t))) tools = None" by simp
  from loop_body_unknown [where ask = ask, OF assms(1,2) tr f refl, of lbl i] a
  show ?thesis by (simp add: agent_loop_continue [OF assms(5)])
qed

theorem unknown_tool_reported_witness:
  "scripted [msg_frobnicate, msg_thought_final] (cur_messages start_state) 0 = (Inr msg_frobnicate, 0) \<and>
   \<not> truthy (p_finalAnswer (parseAgentResponse msg_frobnicate)) \<and>
   p_action (parseAgentResponse msg_frobnicate) = Some (js ''frobnicate'') \<and>
   agent_loop (scripted [msg_frobnicate, msg_thought_final])
       [sample_tool (js ''list_available_models'') (Inr (js ''{}''))] [] 8 0 start_state 0 =
     (Inr (Some \<lparr>steps =
                   [\<lparr>thought = js ''ok'', action = js ''frobnicate'', actionInput = [],
                     observation = js ''Unknown tool: frobnicate. Available: list_available_models''\<rparr>],
                 finalAnswer = js ''done'',
                 totalSteps = 2,
                 provider = []\<rparr>,
           \<lparr>cur_steps =
              [\<lparr>thought = js ''ok'', action = js ''frobnicate'', actionInput = [],
                observation = js ''Unknown tool: frobnicate. Available: list_available_models''\<rparr>],
            cur_messages =
              [\<lparr>role = User, content = js ''Goal: g''\<rparr>,
               \<lparr>role = Assistant, content = msg_frobnicate\<rparr>,
               \<lparr>role = User,
                content = js ''Observation: Unknown tool: frobnicate. Available: list_available_models'' @
                  [NL, NL] @ js ''Continue.''\<rparr>,
               \<lparr>role = Assistant, content = msg_thought_final\<rparr>]\<rparr>), 0)"
proof -
  let ?ask = "scripted [msg_frobnicate, msg_thought_final]"
  let ?tools = "[sample_tool (js ''list_available_models'') (Inr (js ''{}''))]"
  have h1: "?ask (cur_messages start_state) 0 = (Inr msg_frobnicate, 0)"
    by (simp add: scripted_def start_state_def)
  have h2: "\<not> truthy (p_finalAnswer (parseAgentResponse msg_frobnicate))"
    by (simp add: parse_frobnicate truthy_def)
  have h3: "p_action (parseAgentResponse msg_frobnicate) = Some (js ''frobnicate'')"
    by (simp add: parse_frobnicate)
  have h4: "\<forall>x\<in>set ?tools. name x \<noteq> js ''frobnicate''"
    by (simp add: sample_tool_def js_def)
  have h5: "(0::int) < 8" by simp
  from unknown_tool_reported [where ask = ?ask, OF h1 h2 h3 h4 h5, of "[]"]
  have c: "agent_loop ?ask ?tools [] 8 0 start_state 0 =
     (Inr (Some \<lparr>steps =
                   [\<lparr>thought = js ''ok'', action = js ''frobnicate'', actionInput = [],
                     observation = js ''Unknown tool: frobnicate. Available: list_available_models''\<rparr>],
                 finalAnswer = js ''done'',
                 totalSteps = 2,
                 provider = []\<rparr>,
           \<lparr>cur_steps =
              [\<lparr>thought = js ''ok'', action = js ''frobnicate'', actionInput = [],
                observation = js ''Unknown tool: frobnicate. Available: list_available_models''\<rparr>],
            cur_messages =
              [\<lparr>role = User, content = js ''Goal: g''\<rparr>,
               \<lparr>role = Assistant, content = msg_frobnicate\<rparr>,
               \<lparr>role = User,
                content = js ''Observation: Unknown tool: frobnicate. Available: list_available_models'' @
                  [NL, NL] @ js ''Continue.''\<rparr>,
               \<lparr>role = Assistant, content = msg_thought_final\<rparr>]\<rparr>), 0)"
    by (simp add: agent_loop.simps loop_body_def Let_def truthy_def or_empty_def scripted_def
        start_state_def parse_frobnicate parse_thought_final sample_tool_def js_def)
  from h1 h2 h3 c show ?thesis by (intro conjI)
qed

text \<open>
  C7 (amended). Let \<open>l\<close> be an \<^verbatim>\<open>Action:\<close> line of a message. The parser stops at
  the first line that begins with \<^verbatim>\<open>Final Answer:\<close>, so it keeps the name on the
  last \<^verbatim>\<open>Action:\<close> line it scans: when no line before \<open>l\<close> begins with
  \<^verbatim>\<open>Final Answer:\<close> and no \<^verbatim>\<open>Action:\<close> line lies between \<open>l\<close> and the first
  such line after it, the action the parser returns is the name on \<open>l\<close> (absent when the
  name is empty), whatever names came before. When \<open>l\<close> is the last \<^verbatim>\<open>Action:\<close> line
  of the message and the message gives no final answer, \<open>l\<close> is that line. In both cases a
  tool call read from the message carries the name on \<open>l\<close>, and the loop body executes
  at most one tool for the message: none when the message gives a final answer, when the
  name is empty or when no tool has that name, and otherwise the first tool with that
  name, once, on the world the completion call left. An \<^verbatim>\<open>Action:\<close> line after the
  first \<^verbatim>\<open>Final Answer:\<close> line is never scanned: of the three lines
  \<^verbatim>\<open>Action: a\<close>, \<^verbatim>\<open>Final Answer: x\<close>, \<^verbatim>\<open>Action: b\<close> the parser keeps \<open>a\<close>,
  not the last name \<open>b\<close>.
\<close>

theorem last_scanned_action:
  assumes "split_on NL text = pre @ l # post"
    and "is_action_line l"
    and "ask (cur_messages st) w = (Inr text, w1)"
  shows
   "((\<forall>x\<in>set pre. \<not> is_final_line x) \<and>
     (\<forall>x\<in>set (takeWhile (\<lambda>x. \<not> is_final_line x) post). \<not> is_action_line x) \<longrightarrow>
       p_action (parseAgentResponse text) = or_undefined (trim (slice_from (trim l) 7)) \<and>
       (\<forall>th b inp. directive_of text = ToolCall th b inp \<longrightarrow> b = trim (slice_from (trim l) 7)) \<and>
       (\<exists>r. loop_body ask tools lbl i st w =
          (Inr r,
           if truthy (p_finalAnswer (parseAgentResponse text)) \<or> trim (slice_from (trim l) 7) = []
           then w1
           else (case find (\<lambda>x. name x = trim (slice_from (trim l) 7)) tools of
                   None \<Rightarrow> w1
                 | Some tool \<Rightarrow>
                     snd (execute tool (or_empty (p_actionInput (parseAgentResponse text))) w1))))) \<and>
    ((\<forall>x\<in>set post. \<not> is_action_line x) \<longrightarrow>
       (\<not> truthy (p_finalAnswer (parseAgentResponse text)) \<longrightarrow>
          (\<forall>x\<in>set pre. \<not> is_final_line x) \<and>
          p_action (parseAgentResponse text) = or_undefined (trim (slice_from (trim l) 7))) \<and>
       (\<forall>th b inp. directive_of text = ToolCall th b inp \<longrightarrow> b = trim (slice_from (trim l) 7)) \<and>
       (\<exists>r. loop_body ask tools lbl i st w =
          (Inr r,
           if truthy (p_finalAnswer (parseAgentResponse text)) \<or> trim (slice_from (trim l) 7) = []
           then w1
           else (case find (\<lambda>x. name x = trim (slice_from (trim l) 7)) tools of
                   None \<Rightarrow> w1
                 | Some tool \<Rightarrow>
                     snd (execute tool (or_empty (p_actionInput (parseAgentResponse text))) w1)))))"
proof (intro conjI impI)
  assume h: "(\<forall>x\<in>set pre. \<not> is_final_line x) \<and>
     (\<forall>x\<in>set (takeWhile (\<lambda>x. \<not> is_final_line x) post). \<not> is_action_line x)"
  then have pa: "p_action (parseAgentResponse text) = or_undefined (trim (slice_from (trim l) 7))"
    using scanned_action_parsed [OF assms(1,2)] by blast
  then show "p_action (parseAgentResponse text) = or_undefined (trim (slice_from (trim l) 7))" .
  from single_tool_world [where ask = ask, OF assms(3), of "trim (slice_from (trim l) 7)" tools lbl i] pa
  show "\<forall>th b inp. directive_of text = ToolCall th b inp \<longrightarrow> b = trim (slice_from (trim l) 7)"
    and "\<exists>r. loop_body ask tools lbl i st w =
          (Inr r,
           if truthy (p_finalAnswer (parseAgentResponse text)) \<or> trim (slice_from (trim l) 7) = []
           then w1
           else (case find (\<lambda>x. name x = trim (slice_from (trim l) 7)) tools of
                   None \<Rightarrow> w1
                 | Some tool \<Rightarrow>
                     snd (execute tool (or_empty (p_actionInput (parseAgentResponse text))) w1)))"
    by blast+
next
  assume post: "\<forall>x\<in>set post. \<not> is_action_line x"
  have scanned: "\<forall>x\<in>set (takeWhile (\<lambda>x. \<not> is_final_line x) post). \<not> is_action_line x"
    using post by (meson set_takeWhileD)
  have pa: "p_action (parseAgentResponse text) = or_undefined (trim (slice_from (trim l) 7))"
    if nf: "\<not> truthy (p_finalAnswer (parseAgentResponse text))"
    using scanned_action_parsed [OF assms(1,2) no_final_line_before_action [OF assms(1,2) nf] scanned] .
  {
    assume nf: "\<not> truthy (p_finalAnswer (parseAgentResponse text))"
    from no_final_line_before_action [OF assms(1,2) nf]
    show "\<forall>x\<in>set pre. \<not> is_final_line x" .
    from pa [OF nf]
    show "p_action (parseAgentResponse text) = or_undefined (trim (slice_from (trim l) 7))" .
  }
  from single_tool_world [where ask = ask, OF assms(3) pa, of tools lbl i]
  show "\<forall>th b inp. directive_of text = ToolCall th b inp \<longrightarrow> b = trim (slice_from (trim l) 7)"
    and "\<exists>r. loop_body ask tools lbl i st w =
          (Inr r,
           if truthy (p_finalAnswer (parseAgentResponse text)) \<or> trim (slice_from (trim l) 7) = []
           then w1
           else (case find (\<lambda>x. name x = trim (slice_from (trim l) 7)) tools of
                   None \<Rightarrow> w1
                 | Some tool \<Rightarrow>
                     snd (execute tool (or_empty (p_actionInput (parseAgentResponse text))) w1)))"
    by blast+
qed

theorem last_scanned_action_witness:
  "split_on NL msg_two_actions = [js ''Action: first''] @ js ''Action: second'' # [js ''Action Input: x''] \<and>
   is_action_line (js ''Action: second'') \<and>
   \<not> is_final_line (js ''Action: first'') \<and>
   \<not> is_action_line (js ''Action Input: x'') \<and>
   scripted [msg_two_actions] (cur_messages start_state) 0 = (Inr msg_two_actions, 0) \<and>
   p_action (parseAgentResponse msg_two_actions) = Some (js ''second'') \<and>
   directive_of msg_two_actions = ToolCall [] (js ''second'') (js ''x'') \<and>
   (\<exists>r. loop_body (scripted [msg_two_actions])
           [sample_tool (js ''first'') (Inr (js ''one'')), sample_tool (js ''second'') (Inr (js ''two''))]
           [] 0 start_state 0 = (Inr r, 1)) \<and>
   split_on NL msg_action_final_action =
     [] @ js ''Action: a'' # [js ''Final Answer: x'', js ''Action: b''] \<and>
   is_action_line (js ''Action: a'') \<and>
   is_final_line (js ''Final Answer: x'') \<and>
   scripted [msg_action_final_action] (cur_messages start_state) 0 = (Inr msg_action_final_action, 0) \<and>
   p_action (parseAgentResponse msg_action_final_action) = Some (js ''a'') \<and>
   (\<exists>r. loop_body (scripted [msg_action_final_action])
           [sample_tool (js ''a'') (Inr (js ''one'')), sample_tool (js ''b'') (Inr (js ''two''))]
           [] 0 start_state 0 = (Inr r, 0))"
proof -
  let ?tools = "[sample_tool (js ''first'') (Inr (js ''one'')), sample_tool (js ''second'') (Inr (js ''two''))]"
  have h1: "split_on NL msg_two_actions =
      [js ''Action: first''] @ js ''Action: second'' # [js ''Action Input: x'']"
    by (simp add: msg_two_actions_def js_def NL_def)
  have h2: "is_action_line (js ''Action: second'')"
    by (simp add: is_action_line_def string_eval)
  have n1: "\<not> is_final_line (js ''Action: first'')"
    by (simp add: is_final_line_def string_eval)
  have n2: "\<not> is_action_line (js ''Action Input: x'')"
    by (simp add: is_action_line_def string_eval)
  have h3: "scripted [msg_two_actions] (cur_messages start_state) 0 = (Inr msg_two_actions, 0)"
    by (simp add: scripted_def start_state_def)
  from n1 n2 have scan: "(\<forall>x\<in>set [js ''Action: first'']. \<not> is_final_line x) \<and>
     (\<forall>x\<in>set (takeWhile (\<lambda>x. \<not> is_final_line x) [js ''Action Input: x'']). \<not> is_action_line x)"
    by (auto dest!: set_takeWhileD)
  have nf: "\<not> truthy (p_finalAnswer (parseAgentResponse msg_two_actions))"
    by (simp add: msg_two_actions_def parser_eval)
  have a: "trim (slice_from (trim (js ''Action: second'')) 7) = js ''second''"
    by (simp add: string_eval)
  have ne: "js ''second'' \<noteq> []" by (simp add: js_def)
  have f: "find (\<lambda>x. name x = js ''second'') ?tools = Some (sample_tool (js ''second'') (Inr (js ''two'')))"
    by (simp add: sample_tool_def js_def)
  note inst = last_scanned_action [where ask = "scripted [msg_two_actions]", OF h1 h2 h3,
      of ?tools "[]" 0, THEN conjunct1, rule_format, OF scan, unfolded a]
  from inst ne have c1: "p_action (parseAgentResponse msg_two_actions) = Some (js ''second'')"
    by (simp add: or_undefined_def)
  have d: "directive_of msg_two_actions = ToolCall [] (js ''second'') (js ''x'')"
    by (simp add: directive_of_def msg_two_actions_def parser_eval)
  from inst nf ne f have c2: "\<exists>r. loop_body (scripted [msg_two_actions]) ?tools [] 0 start_state 0 = (Inr r, 1)"
    by (simp add: sample_tool_def)
  let ?tools2 = "[sample_tool (js ''a'') (Inr (js ''one'')), sample_tool (js ''b'') (Inr (js ''two''))]"
  have g1: "split_on NL msg_action_final_action =
     [] @ js ''Action: a'' # [js ''Final Answer: x'', js ''Action: b'']"
    by (simp add: msg_action_final_action_def js_def NL_def)
  have g2: "is_action_line (js ''Action: a'')"
    by (simp add: is_action_line_def string_eval)
  have g3: "scripted [msg_action_final_action] (cur_messages start_state) 0 =
      (Inr msg_action_final_action, 0)"
    by (simp add: scripted_def start_state_def)
  have g4: "is_final_line (js ''Final Answer: x'')"
    by (simp add: is_final_line_def string_eval)
  from g4 have scan2: "(\<forall>x\<in>set []. \<not> is_final_line x) \<and>
     (\<forall>x\<in>set (takeWhile (\<lambda>x. \<not> is_final_line x) [js ''Final Answer: x'', js ''Action: b'']).
        \<not> is_action_line x)"
    by simp
  have b: "trim (slice_from (trim (js ''Action: a'')) 7) = js ''a''"
    by (simp add: string_eval)
  have nb: "js ''a'' \<noteq> []" by (simp add: js_def)
  have fin: "truthy (p_finalAnswer (parseAgentResponse msg_action_final_action))"
    by (simp add: msg_action_final_action_def parser_eval)
  note inst2 = last_scanned_action [where ask = "scripted [msg_action_final_action]", OF g1 g2 g3,
      of ?tools2 "[]" 0, THEN conjunct1, rule_format, OF scan2, unfolded b]
  from inst2 nb have e1: "p_action (parseAgentResponse msg_action_final_action) = Some (js ''a'')"
    by (simp add: or_undefined_def)
  from inst2 fin have e2: "\<exists>r. loop_body (scripted [msg_action_final_action]) ?tools2 [] 0 start_state 0 =
      (Inr r, 0)"
    by simp
  from h1 h2 n1 n2 h3 c1 d c2 g1 g2 g4 g3 e1 e2 show ?thesis by (intro conjI)
qed

theorem last_action_not_scanned_counterexample:
  "split_on NL msg_action_final_action = [js ''Action: a'', js ''Final Answer: x'', js ''Action: b''] \<and>
   is_action_line (js ''Action: a'') \<and>
   is_final_line (js ''Final Answer: x'') \<and>
   is_action_line (js ''Action: b'') \<and>
   trim (slice_from (trim (js ''Action: b'')) 7) = js ''b'' \<and>
   p_action (parseAgentResponse msg_action_final_action) = Some (js ''a'') \<and>
   js ''a'' \<noteq> js ''b''"
  by (simp add: msg_action_final_action_def is_action_line_def is_final_line_def parser_eval)

text \<open>
  C8 (amended). With no provider configured \<^verbatim>\<open>runAgent\<close> rejects with its
  configuration error in the world it started from, whatever the step budget: no
  completion call and no tool ran. With a provider configured it rejects only with the
  failure of a completion call, which it does not catch: no tool can make it reject. The
  counterexample is a run whose first completion call throws.
\<close>

theorem run_failures:
  "(getAvailableProviders env = [] \<longrightarrow>
      (\<exists>msg. runAgent env complete goal tools ctx maxSteps0 w = (Inl (NoProviderConfigured msg), w))) \<and>
   (getAvailableProviders env \<noteq> [] \<longrightarrow>
    runAgent env complete goal tools ctx maxSteps0 w = (Inl e, w') \<longrightarrow>
      (\<exists>k m s ms a n w0 msg. e = ProviderFailure msg \<and> complete k m s ms a n w0 = (Inl msg, w')))"
proof (intro conjI impI)
  assume "getAvailableProviders env = []"
  then show "\<exists>msg. runAgent env complete goal tools ctx maxSteps0 w = (Inl (NoProviderConfigured msg), w)"
    by (rule runAgent_unconfigured)
next
  let ?B = "case maxSteps0 of None \<Rightarrow> 8 | Some n \<Rightarrow> n"
  assume conf: "getAvailableProviders env \<noteq> []"
    and result: "runAgent env complete goal tools ctx maxSteps0 w = (Inl e, w')"
  from runAgent_configured [OF conf, of complete goal tools ctx maxSteps0 w]
  obtain k m s a lbl msgs where run:
    "runAgent env complete goal tools ctx maxSteps0 w =
      (case agent_loop (\<lambda>ms. complete k m s ms a 2048) tools lbl ?B 0
               \<lparr>cur_steps = [], cur_messages = msgs\<rparr> w of
         (Inl e, w') \<Rightarrow> (Inl e, w')
       | (Inr (Some res, st'), w') \<Rightarrow> (Inr res, w')
       | (Inr (None, st'), w') \<Rightarrow>
           (Inr \<lparr>steps = cur_steps st',
                 finalAnswer = fallback_answer (cur_steps st'),
                 totalSteps = ?B,
                 provider = lbl\<rparr>, w'))"
    by blast
  with result have "agent_loop (\<lambda>ms. complete k m s ms a 2048) tools lbl ?B 0
        \<lparr>cur_steps = [], cur_messages = msgs\<rparr> w = (Inl e, w')"
    by (auto split: prod.splits sum.splits option.splits)
  from agent_loop_failure [OF this]
  show "\<exists>k m s ms a n w0 msg. e = ProviderFailure msg \<and> complete k m s ms a n w0 = (Inl msg, w')"
    by blast
qed

theorem run_failures_witness:
  "getAvailableProviders Map.empty = [] \<and>
   (\<exists>msg. runAgent Map.empty (scripted_provider []) (js ''g'')
       [sample_tool (js ''boom'') (Inl (js ''kaput''))] None (Some 5) 0 =
     (Inl (NoProviderConfigured msg), 0))"
proof -
  have h: "getAvailableProviders Map.empty = []"
    by (simp add: getAvailableProviders_def truthy_def)
  from run_failures [where env = Map.empty and complete = "scripted_provider []" and goal = "js ''g''"
      and tools = "[sample_tool (js ''boom'') (Inl (js ''kaput''))]" and ctx = None
      and ?maxSteps0.0 = "Some 5" and w = 0, THEN conjunct1] h
  show ?thesis by simp
qed

theorem provider_failure_counterexample:
  "getAvailableProviders sample_env = [js ''openai''] \<and>
   runAgent sample_env (scripted_provider []) (js ''g'') [] None None 0 =
     (Inl (ProviderFailure (js ''HTTP 500'')), 0)"
  by (simp add: engine_eval scripted_provider_def scripted_def js_def)



text \<open>
  C10. If the text after the first \<^verbatim>\<open>Final Answer:\<close> marker of a message is empty or
  white space only, the parser yields no final answer (the empty string becomes
  \<^verbatim>\<open>undefined\<close>). The loop body then does not return from the run. With an action
  parsed from the same message it looks up the first tool of that name and executes it
  once, on the parsed input, in the world the completion call left; it records a step for
  the action whose observation is the output of the tool, \<^verbatim>\<open>Tool error: \<close> and the
  message when the tool throws, or the report of an unknown tool when no tool has that
  name, and it appends the reply and the observation to the transcript. Without an action
  it appends the reply and the corrective nudge, records no step and executes no tool.
\<close>

theorem blank_final_answer_ignored:
  assumes "first_occurrence text (js ''Final Answer:'') k"
    and "list_all is_ws (drop (k + 13) text)"
    and "ask (cur_messages st) w = (Inr text, w1)"
  shows "p_finalAnswer (parseAgentResponse text) = None \<and>
    loop_body ask tools lbl i st w =
      (if truthy (p_action (parseAgentResponse text)) then
         (case find (\<lambda>x. name x = or_empty (p_action (parseAgentResponse text))) tools of
            None \<Rightarrow>
              (Inr (None,
                 \<lparr>cur_steps = cur_steps st @
                    [\<lparr>thought = p_thought (parseAgentResponse text),
                      action = or_empty (p_action (parseAgentResponse text)),
                      actionInput = or_empty (p_actionInput (parseAgentResponse text)),
                      observation =
                        js ''Unknown tool: '' @ or_empty (p_action (parseAgentResponse text)) @
                        js ''. Available: '' @ join (js '', '') (map name tools)\<rparr>],
                  cur_messages = cur_messages st @
                    [\<lparr>role = Assistant, content = text\<rparr>,
                     \<lparr>role = User,
                      content = js ''Observation: '' @
                        (js ''Unknown tool: '' @ or_empty (p_action (parseAgentResponse text)) @
                         js ''. Available: '' @ join (js '', '') (map name tools)) @
                        [NL, NL] @ js ''Continue.''\<rparr>]\<rparr>), w1)
          | Some tool \<Rightarrow>
              (case execute tool (or_empty (p_actionInput (parseAgentResponse text))) w1 of
                 (out, w2) \<Rightarrow>
                   (Inr (None,
                      \<lparr>cur_steps = cur_steps st @
                         [\<lparr>thought = p_thought (parseAgentResponse text),
                           action = or_empty (p_action (parseAgentResponse text)),
                           actionInput = or_empty (p_actionInput (parseAgentResponse text)),
                           observation =
                             (case out of Inr s \<Rightarrow> s | Inl e \<Rightarrow> js ''Tool error: '' @ e)\<rparr>],
                       cur_messages = cur_messages st @
                         [\<lparr>role = Assistant, content = text\<rparr>,
                          \<lparr>role = User,
                           content = js ''Observation: '' @
                             (case out of Inr s \<Rightarrow> s | Inl e \<Rightarrow> js ''Tool error: '' @ e) @
                             [NL, NL] @ js ''Continue.''\<rparr>]\<rparr>), w2)))
       else
         (Inr (None,
            st\<lparr>cur_messages := cur_messages st @
               [\<lparr>role = Assistant, content = text\<rparr>,
                \<lparr>role = User, content = js ''Use a tool or provide Final Answer.''\<rparr>]\<rparr>), w1))"
proof -
  from assms(1,2) have "after_marker text = []"
    by (simp add: first_after_marker trim_Nil_iff)
  with final_answer_cases [of "text" "split_on NL text" init_vars]
  have none: "p_finalAnswer (parseAgentResponse text) = None"
    by (auto simp: parse_fields init_vars_def)
  then have nf: "\<not> truthy (p_finalAnswer (parseAgentResponse text))" by (simp add: truthy_def)
  show ?thesis
  proof (cases "truthy (p_action (parseAgentResponse text))")
    case False
    from loop_body_nudge [where ask = ask, OF assms(3) nf False, of tools lbl i] False none
    show ?thesis by simp
  next
    case act: True
    show ?thesis
    proof (cases "find (\<lambda>x. name x = or_empty (p_action (parseAgentResponse text))) tools")
      case None
      from loop_body_unknown [where ask = ask, OF assms(3) nf act None refl, of lbl i] act none None
      show ?thesis by simp
    next
      case (Some tool)
      obtain out w2 where ex:
        "execute tool (or_empty (p_actionInput (parseAgentResponse text))) w1 = (out, w2)"
        by (cases "execute tool (or_empty (p_actionInput (parseAgentResponse text))) w1")
      from loop_body_tool [where ask = ask, OF assms(3) nf act Some ex refl, of lbl i] act none Some ex
      show ?thesis by simp
    qed
  qed
qed

theorem blank_final_answer_ignored_witness:
  "first_occurrence msg_action_blank_final (js ''Final Answer:'') 12 \<and>
   list_all is_ws (drop (12 + 13) msg_action_blank_final) \<and>
   scripted [msg_action_blank_final] (cur_messages start_state) 0 = (Inr msg_action_blank_final, 0) \<and>
   p_finalAnswer (parseAgentResponse msg_action_blank_final) = None \<and>
   loop_body (scripted [msg_action_blank_final]) [sample_tool (js ''foo'') (Inr (js ''ok''))] [] 0
       start_state 0 =
     (Inr (None,
        \<lparr>cur_steps = [\<lparr>thought = [], action = js ''foo'', actionInput = [], observation = js ''ok''\<rparr>],
         cur_messages = cur_messages start_state @
           [\<lparr>role = Assistant, content = msg_action_blank_final\<rparr>,
            \<lparr>role = User, content = js ''Observation: '' @ js ''ok'' @ [NL, NL] @ js ''Continue.''\<rparr>]\<rparr>), 1) \<and>
   loop_body (scripted [msg_action_blank_final]) [sample_tool (js ''foo'') (Inl (js ''kaput''))] [] 0
       start_state 0 =
     (Inr (None,
        \<lparr>cur_steps =
           [\<lparr>thought = [], action = js ''foo'', actionInput = [],
             observation = js ''Tool error: kaput''\<rparr>],
         cur_messages = cur_messages start_state @
           [\<lparr>role = Assistant, content = msg_action_blank_final\<rparr>,
            \<lparr>role = User,
             content = js ''Observation: '' @ js ''Tool error: kaput'' @ [NL, NL] @
               js ''Continue.''\<rparr>]\<rparr>), 1) \<and>
   loop_body (scripted [msg_action_blank_final]) [] [] 0 start_state 0 =
     (Inr (None,
        \<lparr>cur_steps =
           [\<lparr>thought = [], action = js ''foo'', actionInput = [],
             observation = js ''Unknown tool: foo. Available: ''\<rparr>],
         cur_messages = cur_messages start_state @
           [\<lparr>role = Assistant, content = msg_action_blank_final\<rparr>,
            \<lparr>role = User,
             content = js ''Observation: '' @ js ''Unknown tool: foo. Available: '' @ [NL, NL] @
               js ''Continue.''\<rparr>]\<rparr>), 0) \<and>
   first_occurrence msg_blank_final_only (js ''Final Answer:'') 0 \<and>
   list_all is_ws (drop (0 + 13) msg_blank_final_only) \<and>
   scripted [msg_blank_final_only] (cur_messages start_state) 0 = (Inr msg_blank_final_only, 0) \<and>
   p_finalAnswer (parseAgentResponse msg_blank_final_only) = None \<and>
   loop_body (scripted [msg_blank_final_only]) [sample_tool (js ''foo'') (Inr (js ''ok''))] [] 0
       start_state 0 =
     (Inr (None,
        \<lparr>cur_steps = [],
         cur_messages = cur_messages start_state @
           [\<lparr>role = Assistant, content = msg_blank_final_only\<rparr>,
            \<lparr>role = User, content = js ''Use a tool or provide Final Answer.''\<rparr>]\<rparr>), 0)"
proof -
  let ?ask = "scripted [msg_action_blank_final]"
  have h1: "first_occurrence msg_action_blank_final (js ''Final Answer:'') 12"
    by (simp add: first_occurrence_iff msg_action_blank_final_def string_eval)
  have h2: "list_all is_ws (drop (12 + 13) msg_action_blank_final)"
    by (simp add: msg_action_blank_final_def string_eval)
  have h3: "?ask (cur_messages start_state) 0 = (Inr msg_action_blank_final, 0)"
    by (simp add: scripted_def start_state_def)
  note inst = blank_final_answer_ignored [where ask = ?ask, OF h1 h2 h3]
  from inst [of "[]" "[]" 0] have c0: "p_finalAnswer (parseAgentResponse msg_action_blank_final) = None"
    by simp
  from inst [of "[sample_tool (js ''foo'') (Inr (js ''ok''))]" "[]" 0]
  have c1: "loop_body ?ask [sample_tool (js ''foo'') (Inr (js ''ok''))] [] 0 start_state 0 =
     (Inr (None,
        \<lparr>cur_steps = [\<lparr>thought = [], action = js ''foo'', actionInput = [], observation = js ''ok''\<rparr>],
         cur_messages = cur_messages start_state @
           [\<lparr>role = Assistant, content = msg_action_blank_final\<rparr>,
            \<lparr>role = User, content = js ''Observation: '' @ js ''ok'' @ [NL, NL] @ js ''Continue.''\<rparr>]\<rparr>), 1)"
    by (simp add: parse_action_blank_final truthy_def or_empty_def sample_tool_def start_state_def js_def)
  from inst [of "[sample_tool (js ''foo'') (Inl (js ''kaput''))]" "[]" 0]
  have c1': "loop_body ?ask [sample_tool (js ''foo'') (Inl (js ''kaput''))] [] 0 start_state 0 =
     (Inr (None,
        \<lparr>cur_steps =
           [\<lparr>thought = [], action = js ''foo'', actionInput = [],
             observation = js ''Tool error: kaput''\<rparr>],
         cur_messages = cur_messages start_state @
           [\<lparr>role = Assistant, content = msg_action_blank_final\<rparr>,
            \<lparr>role = User,
             content = js ''Observation: '' @ js ''Tool error: kaput'' @ [NL, NL] @
               js ''Continue.''\<rparr>]\<rparr>), 1)"
    by (simp add: parse_action_blank_final truthy_def or_empty_def sample_tool_def start_state_def js_def)
  from inst [of "[]" "[]" 0]
  have c2: "loop_body ?ask [] [] 0 start_state 0 =
     (Inr (None,
        \<lparr>cur_steps =
           [\<lparr>thought = [], action = js ''foo'', actionInput = [],
             observation = js ''Unknown tool: foo. Available: ''\<rparr>],
         cur_messages = cur_messages start_state @
           [\<lparr>role = Assistant, content = msg_action_blank_final\<rparr>,
            \<lparr>role = User,
             content = js ''Observation: '' @ js ''Unknown tool: foo. Available: '' @ [NL, NL] @
               js ''Continue.''\<rparr>]\<rparr>), 0)"
    by (simp add: parse_action_blank_final truthy_def or_empty_def start_state_def js_def)
  let ?ask2 = "scripted [msg_blank_final_only]"
  have g1: "first_occurrence msg_blank_final_only (js ''Final Answer:'') 0"
    by (simp add: first_occurrence_iff msg_blank_final_only_def string_eval)
  have g2: "list_all is_ws (drop (0 + 13) msg_blank_final_only)"
    by (simp add: msg_blank_final_only_def string_eval)
  have g3: "?ask2 (cur_messages start_state) 0 = (Inr msg_blank_final_only, 0)"
    by (simp add: scripted_def start_state_def)
  note inst2 = blank_final_answer_ignored [where ask = ?ask2, OF g1 g2 g3]
  from inst2 [of "[]" "[]" 0] have d0: "p_finalAnswer (parseAgentResponse msg_blank_final_only) = None"
    by simp
  from inst2 [of "[sample_tool (js ''foo'') (Inr (js ''ok''))]" "[]" 0]
  have d1: "loop_body ?ask2 [sample_tool (js ''foo'') (Inr (js ''ok''))] [] 0 start_state 0 =
     (Inr (None,
        \<lparr>cur_steps = [],
         cur_messages = cur_messages start_state @
           [\<lparr>role = Assistant, content = msg_blank_final_only\<rparr>,
            \<lparr>role = User, content = js ''Use a tool or provide Final Answer.''\<rparr>]\<rparr>), 0)"
    by (simp add: parse_blank_final_only truthy_def start_state_def)
  from h1 h2 h3 c0 c1 c1' c2 g1 g2 g3 d0 d1 show ?thesis by (intro conjI)
qed

end
